theory Spec2Isabelle
  imports Main
begin

section \<open>JavaScript values\<close>

text \<open>
  The library is plain JavaScript: option fields, chat identifiers, roster entries,
  message contents and provider responses are untyped values that the code probes with
  truthiness tests, \<^verbatim>\<open>typeof\<close> and \<^verbatim>\<open>Array.isArray\<close>.
  They are modelled by one datatype. Numbers are the integers (no fractions, no NaN), and a
  string is a list of 8-bit code units.
\<close>

datatype jsval =
    Undefined
  | Null
  | Bool bool
  | Num int
  | Str string
  | Arr "jsval list"
  | Obj "(string \<times> jsval) list"

text \<open>\<^verbatim>\<open>Boolean(v)\<close>, the test behind \<^verbatim>\<open>!v\<close>, \<^verbatim>\<open>a && b\<close>,
  \<^verbatim>\<open>a || b\<close> and \<^verbatim>\<open>.filter(Boolean)\<close>: every array and every object is truthy,
  the empty ones too.\<close>

fun truthy :: "jsval \<Rightarrow> bool" where
  "truthy Undefined = False"
| "truthy Null = False"
| "truthy (Bool b) = b"
| "truthy (Num n) = (n \<noteq> 0)"
| "truthy (Str s) = (s \<noteq> [])"
| "truthy (Arr xs) = True"
| "truthy (Obj kvs) = True"

text \<open>Property read: \<^verbatim>\<open>v.k\<close> where the code has made sure that \<open>v\<close> is not null or
  undefined, and \<^verbatim>\<open>v?.k\<close>, which is \<^verbatim>\<open>undefined\<close> for those two. A missing property, and any
  property of a primitive that the code asks for, is \<^verbatim>\<open>undefined\<close>. The association list of
  an object is read first-match, so a key is written once.\<close>

fun get_prop :: "jsval \<Rightarrow> string \<Rightarrow> jsval" where
  "get_prop (Obj kvs) k = (case map_of kvs k of Some v \<Rightarrow> v | None \<Rightarrow> Undefined)"
| "get_prop v k = Undefined"

fun is_string :: "jsval \<Rightarrow> bool" where
  "is_string (Str s) = True"
| "is_string v = False"

fun is_array :: "jsval \<Rightarrow> bool" where
  "is_array (Arr xs) = True"
| "is_array v = False"

fun str_of :: "jsval \<Rightarrow> string" where
  "str_of (Str s) = s"
| "str_of v = []"

fun js_join :: "string \<Rightarrow> string list \<Rightarrow> string" where
  "js_join sep [] = []"
| "js_join sep [x] = x"
| "js_join sep (x # y # ys) = x @ sep @ js_join sep (y # ys)"

text \<open>Decimal digits; \<open>digit_char\<close> is only applied to numbers below ten.\<close>

definition digit_char :: "nat \<Rightarrow> char" where
  "digit_char d = ''0123456789'' ! d"

fun nat_decimal :: "nat \<Rightarrow> string" where
  "nat_decimal n =
     (if n < 10 then [digit_char n]
      else nat_decimal (n div 10) @ [digit_char (n mod 10)])"

declare nat_decimal.simps [simp del]

definition int_decimal :: "int \<Rightarrow> string" where
  "int_decimal i = (if i < 0 then CHR ''-'' # nat_decimal (nat (- i)) else nat_decimal (nat i))"

text \<open>\<^verbatim>\<open>String(v)\<close> and the interpolation \<^verbatim>\<open>`${v}`\<close>. An array prints its elements
  joined by commas, null and undefined elements as the empty string.\<close>

fun js_String :: "jsval \<Rightarrow> string" where
  "js_String Undefined = ''undefined''"
| "js_String Null = ''null''"
| "js_String (Bool b) = (if b then ''true'' else ''false'')"
| "js_String (Num n) = int_decimal n"
| "js_String (Str s) = s"
| "js_String (Arr xs) =
     js_join '','' (map (\<lambda>x. if x = Undefined \<or> x = Null then [] else js_String x) xs)"
| "js_String (Obj kvs) = ''[object Object]''"

text \<open>\<^verbatim>\<open>String.prototype.trim\<close>: the white space and line terminators of ECMAScript that
  fit a code unit below 256 are tab, line feed, vertical tab, form feed, carriage return, space
  and the no-break space.\<close>

definition js_whitespace :: "char \<Rightarrow> bool" where
  "js_whitespace c = (of_char c \<in> {9::nat, 10, 11, 12, 13, 32, 160})"

definition js_trim :: "string \<Rightarrow> string" where
  "js_trim s = rev (dropWhile js_whitespace (rev (dropWhile js_whitespace s)))"

datatype js_error = Error string

fun message :: "js_error \<Rightarrow> string" where
  "message (Error m) = m"

section \<open>Ai: construction\<close>

text \<open>
  The options object of \<^verbatim>\<open>new Ai({...})\<close>. A destructuring default applies exactly when
  the field is \<^verbatim>\<open>undefined\<close>. The sampling fields (temperature, maxTokens, headers) are
  handed to the client unchanged and enter no decision; they are left out.
  \<^verbatim>\<open>fallbackModels\<close> is spread into an array literal, so it is an array when given.
\<close>

record ai_options =
  opt_apiKey :: jsval
  opt_model :: jsval
  opt_fallbackModels :: "jsval list option"
  opt_requestTimeoutMs :: "int option"
  opt_firstToFinish :: jsval

record ai =
  apiKey :: jsval
  models :: "jsval list"
  requestTimeoutMs :: int
  firstToFinish :: jsval
  lastUsedModel :: jsval

definition default_to :: "jsval \<Rightarrow> jsval \<Rightarrow> jsval" where
  "default_to d v = (if v = Undefined then d else v)"

text \<open>\<^verbatim>\<open>[model, ...fallbackModels].filter(Boolean)\<close>, with the two destructuring defaults
  of the constructor that owns it.\<close>

definition build_models :: "string \<Rightarrow> jsval \<Rightarrow> jsval list option \<Rightarrow> jsval list" where
  "build_models default_model model fallbackModels =
     filter truthy
       (default_to (Str default_model) model #
        (case fallbackModels of None \<Rightarrow> [] | Some fs \<Rightarrow> fs))"

definition construct :: "string \<Rightarrow> string \<Rightarrow> ai_options \<Rightarrow> js_error + ai" where
  "construct class_name default_model opts =
     (if \<not> truthy (opt_apiKey opts) then Inl (Error (''apiKey is required for '' @ class_name))
      else Inr \<lparr> apiKey = opt_apiKey opts,
                 models = build_models default_model (opt_model opts) (opt_fallbackModels opts),
                 requestTimeoutMs =
                   (case opt_requestTimeoutMs opts of None \<Rightarrow> 20000 | Some n \<Rightarrow> n),
                 firstToFinish = default_to (Bool False) (opt_firstToFinish opts),
                 lastUsedModel = Null \<rparr>)"

definition Ai_new :: "ai_options \<Rightarrow> js_error + ai" where
  "Ai_new = construct ''Ai'' ''meta-llama/llama-3.3-70b-instruct:free''"

definition GroqAi_new :: "ai_options \<Rightarrow> js_error + ai" where
  "GroqAi_new = construct ''GroqAi'' ''llama-3.1-70b-versatile''"

definition MistralAi_new :: "ai_options \<Rightarrow> js_error + ai" where
  "MistralAi_new = construct ''MistralAi'' ''mistral-small-latest''"

section \<open>Ai.ask: one attempt\<close>

text \<open>
  What the outside world does with one call of \<^verbatim>\<open>client.invoke(builtMessages)\<close>: the call
  settles after some milliseconds, rejecting with an error (a synchronous throw of
  \<^verbatim>\<open>getClient\<close> or \<^verbatim>\<open>invoke\<close> is a rejection at 0) or resolving with a response, or it
  never settles. The network is a parameter: \<open>net i\<close> is the fate of the call made for
  roster position \<open>i\<close>, so a model that is listed twice may answer differently each time.
\<close>

datatype settle = Rejects js_error | Resolves jsval

datatype invocation = Settles nat settle | Never

datatype attempt_outcome = Success string | Failure js_error

text \<open>The result of an async call as its caller sees it; \<open>Pending\<close> is a promise that
  never settles.\<close>

datatype 'a outcome = Returns 'a | Throws js_error | Pending

definition chunk_text :: "jsval \<Rightarrow> string" where
  "chunk_text chunk =
     (if is_string chunk then str_of chunk
      else if is_string (get_prop chunk ''text'') then str_of (get_prop chunk ''text'')
      else if is_string (get_prop chunk ''content'') then str_of (get_prop chunk ''content'')
      else [])"

fun elems :: "jsval \<Rightarrow> jsval list" where
  "elems (Arr xs) = xs"
| "elems v = []"

definition extractText :: "jsval \<Rightarrow> string" where
  "extractText aiMessage =
     (if \<not> truthy aiMessage then []
      else if is_string (get_prop aiMessage ''content'') then str_of (get_prop aiMessage ''content'')
      else if is_array (get_prop aiMessage ''content'')
        then js_trim (js_join [CHR 0x0A] (map chunk_text (elems (get_prop aiMessage ''content''))))
      else [])"

definition timeout_error :: "jsval \<Rightarrow> int \<Rightarrow> js_error" where
  "timeout_error model ms =
     Error (''Model '' @ js_String model @ '' timed out after '' @ int_decimal ms @ ''ms'')"

definition empty_response :: "jsval \<Rightarrow> js_error" where
  "empty_response model = Error (''Empty response from '' @ js_String model)"

text \<open>\<^verbatim>\<open>Promise.race([work, timeoutPromise])\<close> when the timeout is positive, the bare
  \<^verbatim>\<open>await work\<close> otherwise. The timer rejects with \<open>timed_out\<close>; it wins when the call
  has not settled strictly before it is due. \<open>None\<close>: the await never returns.\<close>

definition race_timeout :: "int \<Rightarrow> js_error \<Rightarrow> invocation \<Rightarrow> (js_error + jsval) option" where
  "race_timeout ms timed_out call =
     (if ms > 0 then
        (case call of
           Settles t s \<Rightarrow>
             if int t < ms then Some (case s of Rejects e \<Rightarrow> Inl e | Resolves r \<Rightarrow> Inr r)
             else Some (Inl timed_out)
         | Never \<Rightarrow> Some (Inl timed_out))
      else
        (case call of
           Settles t s \<Rightarrow> Some (case s of Rejects e \<Rightarrow> Inl e | Resolves r \<Rightarrow> Inr r)
         | Never \<Rightarrow> None))"

definition await_response :: "int \<Rightarrow> jsval \<Rightarrow> invocation \<Rightarrow> (js_error + jsval) option" where
  "await_response ms model call = race_timeout ms (timeout_error model ms) call"

text \<open>The body of the \<^verbatim>\<open>try\<close> block, the same in both modes: await the response, extract
  and trim its text, and throw on an empty text. The throw and a rejection reach the same
  \<^verbatim>\<open>catch\<close>.\<close>

definition run_attempt :: "ai \<Rightarrow> jsval \<Rightarrow> invocation \<Rightarrow> attempt_outcome option" where
  "run_attempt a model call =
     (case await_response (requestTimeoutMs a) model call of
        None \<Rightarrow> None
      | Some (Inl e) \<Rightarrow> Some (Failure e)
      | Some (Inr response) \<Rightarrow>
          (let text = js_trim (extractText response)
           in if text = [] then Some (Failure (empty_response model)) else Some (Success text)))"

section \<open>Ai.ask: the request and the observable world\<close>

text \<open>
  \<^verbatim>\<open>buildUserMessagePayload\<close> shapes the user input and the attachments (base64, data
  URIs); its result, the message to send and the content to remember, is part of the request
  here. \<^verbatim>\<open>buildMessages\<close> then puts system prompt, prior messages and user message in order.
\<close>

datatype chat_message = SystemMessage jsval | HumanMessage jsval | AIMessage jsval

record request =
  system :: jsval
  messages :: "chat_message list"
  user_message :: "chat_message option"
  contentForHistory :: jsval

definition buildMessages :: "request \<Rightarrow> chat_message list" where
  "buildMessages req =
     (if truthy (system req) then [SystemMessage (system req)] else [])
     @ messages req
     @ (case user_message req of Some m \<Rightarrow> [m] | None \<Rightarrow> [])"

text \<open>What a test double would record, in the order it happens: the lines written to the
  console, the chat completion calls (\<^verbatim>\<open>client.invoke\<close>) with model and payload, the
  moderation calls with model and inputs, and the transcription calls with the provider's name
  and the model.\<close>

datatype log_arg = Text string | Thrown js_error

record world =
  console :: "(string \<times> log_arg) list"
  invoked :: "(jsval \<times> chat_message list) list"
  moderations :: "(jsval \<times> jsval list) list"
  transcriptions :: "(string \<times> jsval) list"

text \<open>\<^verbatim>\<open>console.error(`[AI] ${model} failed:`, error?.message || error)\<close>\<close>

definition failure_log :: "jsval \<Rightarrow> js_error \<Rightarrow> string \<times> log_arg" where
  "failure_log model e =
     (''[AI] '' @ js_String model @ '' failed:'',
      if message e \<noteq> [] then Text (message e) else Thrown e)"

definition log_failure :: "jsval \<Rightarrow> js_error \<Rightarrow> world \<Rightarrow> world" where
  "log_failure model e w = w\<lparr>console := console w @ [failure_log model e]\<rparr>"

definition record_invoke :: "jsval \<Rightarrow> chat_message list \<Rightarrow> world \<Rightarrow> world" where
  "record_invoke model payload w = w\<lparr>invoked := invoked w @ [(model, payload)]\<rparr>"

section \<open>Ai.ask: sequential mode\<close>

text \<open>The \<^verbatim>\<open>for (const model of this.models)\<close> loop with its \<^verbatim>\<open>try\<close>/\<^verbatim>\<open>catch\<close>; \<open>i\<close> is
  the roster position of the head of the remaining list.\<close>

fun ask_sequential ::
  "ai \<Rightarrow> chat_message list \<Rightarrow> (nat \<Rightarrow> invocation) \<Rightarrow> nat \<Rightarrow> jsval list \<Rightarrow> js_error option \<Rightarrow> world
     \<Rightarrow> string outcome \<times> ai \<times> world" where
  "ask_sequential a payload net i [] lastError w =
     (Throws (case lastError of Some e \<Rightarrow> e | None \<Rightarrow> Error ''All AI models failed''), a, w)"
| "ask_sequential a payload net i (model # rest) lastError w =
     (case run_attempt a model (net i) of
        None \<Rightarrow> (Pending, a, record_invoke model payload w)
      | Some (Success text) \<Rightarrow>
          (Returns text, a\<lparr>lastUsedModel := model\<rparr>, record_invoke model payload w)
      | Some (Failure e) \<Rightarrow>
          ask_sequential a payload net (Suc i) rest (Some e)
            (log_failure model e (record_invoke model payload w)))"

section \<open>Ai.ask: racing mode\<close>

text \<open>
  The variables of the promise executor, the promise it settles, the instance and the world.
  \<open>resolve_calls\<close> and \<open>reject_calls\<close> count the calls of \<^verbatim>\<open>resolve\<close> and \<^verbatim>\<open>reject\<close>;
  a promise keeps its first settlement, whatever is called later.
\<close>

record race =
  settled :: bool
  remaining :: int
  lastError :: "js_error option"
  promise :: "string outcome"
  resolve_calls :: nat
  reject_calls :: nat
  self :: ai
  env :: world

definition resolve :: "string \<Rightarrow> race \<Rightarrow> race" where
  "resolve text r =
     r\<lparr>promise := (if promise r = Pending then Returns text else promise r),
       resolve_calls := Suc (resolve_calls r)\<rparr>"

definition reject :: "js_error \<Rightarrow> race \<Rightarrow> race" where
  "reject e r =
     r\<lparr>promise := (if promise r = Pending then Throws e else promise r),
       reject_calls := Suc (reject_calls r)\<rparr>"

text \<open>The \<^verbatim>\<open>finally\<close> block.\<close>

definition finally_block :: "race \<Rightarrow> race" where
  "finally_block r =
     (let r1 = r\<lparr>remaining := remaining r - 1\<rparr>
      in if \<not> settled r1 \<and> remaining r1 = 0
         then reject (case lastError r1 of Some e \<Rightarrow> e | None \<Rightarrow> Error ''All AI models failed'')
                (r1\<lparr>settled := True\<rparr>)
         else r1)"

text \<open>
  Every attempt is an async function started in roster order; each runs up to its
  \<^verbatim>\<open>await\<close> at once, so all calls of \<^verbatim>\<open>invoke\<close> are made before any continuation runs.
  The continuation of an attempt (the rest of \<^verbatim>\<open>try\<close>, \<^verbatim>\<open>catch\<close>, \<^verbatim>\<open>finally\<close>) has no
  further await: it runs as one step when the attempt's await returns. \<open>complete net r i\<close> is
  that step for roster position \<open>i\<close>; an attempt whose await never returns takes no step.
\<close>

definition complete :: "(nat \<Rightarrow> invocation) \<Rightarrow> race \<Rightarrow> nat \<Rightarrow> race" where
  "complete net r i =
     (if i < length (models (self r)) then
        (let model = models (self r) ! i in
         case run_attempt (self r) model (net i) of
           None \<Rightarrow> r
         | Some (Success text) \<Rightarrow>
             finally_block
               (if \<not> settled r
                then resolve text (r\<lparr>settled := True, self := (self r)\<lparr>lastUsedModel := model\<rparr>\<rparr>)
                else r)
         | Some (Failure e) \<Rightarrow>
             finally_block (r\<lparr>lastError := Some e, env := log_failure model e (env r)\<rparr>))
      else r)"

definition launch :: "ai \<Rightarrow> chat_message list \<Rightarrow> world \<Rightarrow> race" where
  "launch a payload w =
     \<lparr> settled = False, remaining = int (length (models a)), lastError = None,
       promise = Pending, resolve_calls = 0, reject_calls = 0, self = a,
       env = foldl (\<lambda>w model. record_invoke model payload w) w (models a) \<rparr>"

text \<open>The continuations run in the order in which the attempts finish: \<open>order\<close> lists the
  roster positions chronologically. It is the scheduler's choice and a parameter.\<close>

definition ask_racing ::
  "ai \<Rightarrow> chat_message list \<Rightarrow> (nat \<Rightarrow> invocation) \<Rightarrow> nat list \<Rightarrow> world \<Rightarrow> race" where
  "ask_racing a payload net order w = foldl (complete net) (launch a payload w) order"

section \<open>Ai.ask\<close>

definition Ai_ask ::
  "ai \<Rightarrow> request \<Rightarrow> (nat \<Rightarrow> invocation) \<Rightarrow> nat list \<Rightarrow> world \<Rightarrow> string outcome \<times> ai \<times> world" where
  "Ai_ask a req net order w =
     (if models a = [] then (Throws (Error ''No AI models configured''), a, w)
      else
        (let builtMessages = buildMessages req in
         if \<not> truthy (firstToFinish a) \<or> length (models a) = 1
         then ask_sequential a builtMessages net 0 (models a) None w
         else (let r = ask_racing a builtMessages net order w in (promise r, self r, env r))))"

section \<open>AiMemoryStore\<close>

text \<open>
  The MongoDB collection behind the store: its documents in insertion order, and the counter
  from which fresh \<^verbatim>\<open>_id\<close>s are drawn. \<open>finds\<close> counts the \<^verbatim>\<open>find\<close> queries issued, as a
  test double of the collection would. A document carries the normalised chat identifier, the
  scope, the role and the content of the turn, and the clock reading at its creation.
\<close>

record doc =
  doc_id :: nat
  doc_chatId :: string
  doc_scope :: jsval
  doc_role :: jsval
  doc_content :: jsval
  doc_createdAt :: nat

record store =
  docs :: "doc list"
  next_id :: nat
  finds :: nat

text \<open>What the database does with the operations of one call: each of them may fail with an
  error. An \<^verbatim>\<open>insertMany\<close> that fails is taken to have written nothing.\<close>

record db =
  connect_error :: "js_error option"
  insert_error :: "js_error option"
  aggregate_error :: "js_error option"
  delete_error :: "js_error option"

type_synonym console_lines = "(string \<times> log_arg) list"

definition maxEntries :: nat where
  "maxEntries = 80"

text \<open>The filter \<^verbatim>\<open>{ chatId: normalizedChatId, scope }\<close>.\<close>

definition in_partition :: "string \<Rightarrow> jsval \<Rightarrow> doc \<Rightarrow> bool" where
  "in_partition cid scope d = (doc_chatId d = cid \<and> doc_scope d = scope)"

text \<open>\<^verbatim>\<open>sort({ createdAt: -1 })\<close>: newest first. MongoDB leaves the order of documents with
  equal keys open; here they keep their insertion order.\<close>

definition sort_newest_first :: "doc list \<Rightarrow> doc list" where
  "sort_newest_first ds = sort_key (\<lambda>d. - int (doc_createdAt d)) ds"

text \<open>\<^verbatim>\<open>{ role: doc.role, content: doc.content }\<close>\<close>

definition entry :: "jsval \<Rightarrow> jsval \<Rightarrow> jsval" where
  "entry r c = Obj [(''role'', r), (''content'', c)]"

text \<open>\<^verbatim>\<open>limit(n)\<close> with \<open>n = 0\<close> sets no limit.\<close>

definition mongo_limit :: "nat \<Rightarrow> 'a list \<Rightarrow> 'a list" where
  "mongo_limit n xs = (if n = 0 then xs else take n xs)"

definition getHistory ::
  "db \<Rightarrow> jsval \<Rightarrow> jsval \<Rightarrow> nat \<Rightarrow> store \<Rightarrow> (js_error + jsval list) \<times> store" where
  "getHistory d chatId scope limit s =
     (if \<not> truthy chatId \<or> \<not> truthy scope then (Inr [], s)
      else
        (case connect_error d of
           Some e \<Rightarrow> (Inl e, s)
         | None \<Rightarrow>
             (let normalizedChatId = js_String chatId;
                  found = mongo_limit limit
                            (sort_newest_first
                               (filter (in_partition normalizedChatId scope) (docs s)))
              in (Inr (filter (\<lambda>e. truthy (get_prop e ''role'') \<and> truthy (get_prop e ''content''))
                         (map (\<lambda>x. entry (doc_role x) (doc_content x)) (rev found))),
                  s\<lparr>finds := Suc (finds s)\<rparr>))))"

text \<open>The filter of \<^verbatim>\<open>appendMessages\<close>: \<^verbatim>\<open>msg && msg.role && msg.content\<close>.\<close>

definition valid_message :: "jsval \<Rightarrow> bool" where
  "valid_message msg =
     (truthy msg \<and> truthy (get_prop msg ''role'') \<and> truthy (get_prop msg ''content''))"

text \<open>The \<^verbatim>\<open>map\<close> that follows it. \<open>clock k\<close> is what \<^verbatim>\<open>new Date()\<close> reads for the
  \<open>k\<close>-th document of the call; the \<^verbatim>\<open>_id\<close>s are fresh.\<close>

definition new_docs :: "string \<Rightarrow> jsval \<Rightarrow> (nat \<Rightarrow> nat) \<Rightarrow> nat \<Rightarrow> jsval list \<Rightarrow> doc list" where
  "new_docs normalizedChatId scope clock first_id msgs =
     map (\<lambda>(k, msg).
            \<lparr> doc_id = first_id + k, doc_chatId = normalizedChatId, doc_scope = scope,
              doc_role = get_prop msg ''role'', doc_content = get_prop msg ''content'',
              doc_createdAt = clock k \<rparr>)
         (enumerate 0 (filter valid_message msgs))"

definition insertMany :: "db \<Rightarrow> doc list \<Rightarrow> store \<times> console_lines \<Rightarrow> store \<times> console_lines" where
  "insertMany d ds sc =
     (case sc of (s, out) \<Rightarrow>
        (case insert_error d of
           Some e \<Rightarrow> (s, out @ [(''[AI Memory] Failed to append messages:'', Thrown e)])
         | None \<Rightarrow> (s\<lparr>docs := docs s @ ds, next_id := next_id s + length ds\<rparr>, out)))"

text \<open>The aggregation (match, sort newest first, skip \<open>maxEntries\<close>, project the \<^verbatim>\<open>_id\<close>)
  and the \<^verbatim>\<open>deleteMany\<close> of the \<^verbatim>\<open>_id\<close>s it returns.\<close>

definition trim_history :: "db \<Rightarrow> string \<Rightarrow> jsval \<Rightarrow> store \<times> console_lines \<Rightarrow> store \<times> console_lines" where
  "trim_history d normalizedChatId scope sc =
     (case sc of (s, out) \<Rightarrow>
        (case aggregate_error d of
           Some e \<Rightarrow> (s, out @ [(''[AI Memory] Failed to schedule trim:'', Thrown e)])
         | None \<Rightarrow>
             (let staleDocs = drop maxEntries
                    (sort_newest_first (filter (in_partition normalizedChatId scope) (docs s)));
                  ids = map doc_id staleDocs
              in if staleDocs \<noteq> [] then
                   (case delete_error d of
                      Some e \<Rightarrow> (s, out @ [(''[AI Memory] Failed to trim history:'', Thrown e)])
                    | None \<Rightarrow> (s\<lparr>docs := filter (\<lambda>x. doc_id x \<notin> set ids) (docs s)\<rparr>, out))
                 else (s, out))))"

text \<open>
  \<^verbatim>\<open>appendMessages\<close> up to the moment its promise settles: the guards, the connection, the
  documents and the insertion. The trim is started but not awaited; the last component is
  the partition whose trim is then under way, if any.
\<close>

definition appendMessages ::
  "db \<Rightarrow> (nat \<Rightarrow> nat) \<Rightarrow> jsval \<Rightarrow> jsval \<Rightarrow> jsval \<Rightarrow> store \<times> console_lines
     \<Rightarrow> js_error option \<times> (store \<times> console_lines) \<times> (string \<times> jsval) option" where
  "appendMessages d clock chatId scope msgs sc =
     (if \<not> truthy chatId \<or> \<not> truthy scope \<or> \<not> is_array msgs \<or> elems msgs = []
      then (None, sc, None)
      else
        (case connect_error d of
           Some e \<Rightarrow> (Some e, sc, None)
         | None \<Rightarrow>
             (let normalizedChatId = js_String chatId;
                  ds = new_docs normalizedChatId scope clock (next_id (fst sc)) (elems msgs)
              in if ds = [] then (None, sc, None)
                 else (None, insertMany d ds sc, Some (normalizedChatId, scope)))))"

text \<open>The same once the trim it started has run to its end, with no other operation on the
  collection in between.\<close>

definition appendMessages_trimmed ::
  "db \<Rightarrow> (nat \<Rightarrow> nat) \<Rightarrow> jsval \<Rightarrow> jsval \<Rightarrow> jsval \<Rightarrow> store \<times> console_lines
     \<Rightarrow> js_error option \<times> (store \<times> console_lines)" where
  "appendMessages_trimmed d clock chatId scope msgs sc =
     (case appendMessages d clock chatId scope msgs sc of
        (res, sc1, None) \<Rightarrow> (res, sc1)
      | (res, sc1, Some (cid, sco)) \<Rightarrow> (res, trim_history d cid sco sc1))"

definition clearHistory ::
  "db \<Rightarrow> jsval \<Rightarrow> jsval \<Rightarrow> store \<times> console_lines \<Rightarrow> js_error option \<times> (store \<times> console_lines)" where
  "clearHistory d chatId scope sc =
     (if \<not> truthy chatId \<or> \<not> truthy scope then (None, sc)
      else
        (case connect_error d of
           Some e \<Rightarrow> (Some e, sc)
         | None \<Rightarrow>
             (case delete_error d of
                Some e \<Rightarrow> (Some e, sc)
              | None \<Rightarrow>
                  (case sc of (s, out) \<Rightarrow>
                     (None,
                      s\<lparr>docs := filter (\<lambda>x. \<not> in_partition (js_String chatId) scope x) (docs s)\<rparr>,
                      out @ [(''[AI Memory] History cleared for '' @ js_String chatId
                               @ '' in scope '' @ js_String scope, Text [])])))))"

text \<open>The identifiers of a collection are distinct and below the counter.\<close>

definition wf_store :: "store \<Rightarrow> bool" where
  "wf_store s = (distinct (map doc_id (docs s)) \<and> list_all (\<lambda>x. doc_id x < next_id s) (docs s))"

definition healthy :: db where
  "healthy = \<lparr> connect_error = None, insert_error = None, aggregate_error = None,
               delete_error = None \<rparr>"

definition empty_store :: store where
  "empty_store = \<lparr> docs = [], next_id = 0, finds = 0 \<rparr>"

section \<open>Conversation memory\<close>

text \<open>
  The four history classes (\<^verbatim>\<open>AiWithHistory\<close>, \<^verbatim>\<open>GroqAiWithHistory\<close>,
  \<^verbatim>\<open>MistralAiWithHistory\<close>, \<^verbatim>\<open>MultiProviderAiWithHistory\<close>) override \<^verbatim>\<open>ask\<close> with the same
  body: check the chat identifier, read the history, format it, call \<^verbatim>\<open>super.ask\<close>, persist
  the two new turns without awaiting the write. They differ in the class name of the error, in
  how a stored entry becomes a message, in the tag of the log line, and in the \<^verbatim>\<open>ask\<close> they
  delegate to. The body is written once, with these four as parameters.
\<close>

record memory_binding =
  memoryScope :: jsval
  historyLimit :: nat

text \<open>\<^verbatim>\<open>formatStoredContent\<close> of \<^verbatim>\<open>AiWithHistory\<close> and \<^verbatim>\<open>MultiProviderAiWithHistory\<close>, and the
  message built from an entry.\<close>

definition formatStoredContent :: "jsval \<Rightarrow> jsval" where
  "formatStoredContent content = (if is_array content then Obj [(''content'', content)] else content)"

definition langchain_entry :: "jsval \<Rightarrow> chat_message" where
  "langchain_entry e =
     (let payload = formatStoredContent (get_prop e ''content'')
      in if get_prop e ''role'' = Str ''assistant'' then AIMessage payload else HumanMessage payload)"

text \<open>\<^verbatim>\<open>formatStoredContent\<close> of \<^verbatim>\<open>GroqAiWithHistory\<close> and \<^verbatim>\<open>MistralAiWithHistory\<close>, and the
  plain message built from an entry. \<^verbatim>\<open>JSON.stringify\<close> is the built-in, a parameter here.\<close>

definition plain_formatStoredContent :: "(jsval \<Rightarrow> string) \<Rightarrow> jsval \<Rightarrow> jsval" where
  "plain_formatStoredContent stringify content =
     (case content of
        Arr xs \<Rightarrow> Str (js_join [CHR 0x0A]
                         (map (\<lambda>x. if x = Undefined \<or> x = Null then [] else js_String x) xs))
      | Obj kvs \<Rightarrow> Str (stringify content)
      | _ \<Rightarrow> content)"

definition plain_entry :: "(jsval \<Rightarrow> string) \<Rightarrow> jsval \<Rightarrow> jsval" where
  "plain_entry stringify e =
     Obj [(''role'', Str (if get_prop e ''role'' = Str ''assistant'' then ''assistant'' else ''user'')),
          (''content'', plain_formatStoredContent stringify (get_prop e ''content''))]"

definition toPersist :: "jsval \<Rightarrow> string \<Rightarrow> jsval list" where
  "toPersist content response =
     (if content \<noteq> Null \<and> content \<noteq> Undefined then [entry (Str ''user'') content] else [])
     @ (if response \<noteq> [] then [entry (Str ''assistant'') (Str response)] else [])"

text \<open>
  \<open>super_ask msgs inst w\<close> is the delegated \<^verbatim>\<open>ask\<close> on the formatted history \<open>msgs\<close>, with the
  system prompt, the user input and the attachments of the call; \<open>content\<close> is the
  \<^verbatim>\<open>contentForHistory\<close> that \<^verbatim>\<open>buildUserMessagePayload\<close> returns for them. The write to the store
  is not awaited by the caller; the state returned is the one reached when it has ended. A
  write that rejects is logged.
\<close>

definition WithHistory_ask ::
  "string \<Rightarrow> string \<Rightarrow> (jsval \<Rightarrow> 'm) \<Rightarrow> ('m list \<Rightarrow> 'i \<Rightarrow> world \<Rightarrow> string outcome \<times> 'i \<times> world)
     \<Rightarrow> memory_binding \<Rightarrow> db \<Rightarrow> (nat \<Rightarrow> nat) \<Rightarrow> jsval \<Rightarrow> jsval \<Rightarrow> 'i \<Rightarrow> store \<times> world
     \<Rightarrow> string outcome \<times> 'i \<times> store \<times> world" where
  "WithHistory_ask class_name persist_tag format_entry super_ask mem d clock chatId content inst sw =
     (case sw of (s, w) \<Rightarrow>
        if \<not> truthy chatId
        then (Throws (Error (''chatId is required for '' @ class_name)), inst, s, w)
        else
          (case getHistory d chatId (memoryScope mem) (historyLimit mem) s of
             (Inl e, s1) \<Rightarrow> (Throws e, inst, s1, w)
           | (Inr historyEntries, s1) \<Rightarrow>
               (case super_ask (map format_entry historyEntries) inst w of
                  (Returns response, inst1, w1) \<Rightarrow>
                    (let turns = toPersist content response
                     in if turns = [] then (Returns response, inst1, s1, w1)
                        else
                          (case appendMessages_trimmed d clock chatId (memoryScope mem) (Arr turns)
                                  (s1, console w1) of
                             (None, s2, out) \<Rightarrow> (Returns response, inst1, s2, w1\<lparr>console := out\<rparr>)
                           | (Some e, s2, out) \<Rightarrow>
                               (Returns response, inst1, s2,
                                w1\<lparr>console := out @ [(persist_tag, Thrown e)]\<rparr>)))
                | (Throws e, inst1, w1) \<Rightarrow> (Throws e, inst1, s1, w1)
                | (Pending, inst1, w1) \<Rightarrow> (Pending, inst1, s1, w1))))"

definition AiWithHistory_ask ::
  "ai \<Rightarrow> memory_binding \<Rightarrow> db \<Rightarrow> (nat \<Rightarrow> nat) \<Rightarrow> (nat \<Rightarrow> invocation) \<Rightarrow> nat list \<Rightarrow> jsval \<Rightarrow> request
     \<Rightarrow> store \<times> world \<Rightarrow> string outcome \<times> ai \<times> store \<times> world" where
  "AiWithHistory_ask a mem d clock net order chatId req sw =
     WithHistory_ask ''AiWithHistory'' ''[AI Memory] Failed to persist chat:'' langchain_entry
       (\<lambda>msgs inst w. Ai_ask inst (req\<lparr>messages := msgs\<rparr>) net order w)
       mem d clock chatId (contentForHistory req) a sw"

text \<open>The other three delegate to \<^verbatim>\<open>GroqAi.ask\<close>, \<^verbatim>\<open>MistralAi.ask\<close> and
  \<^verbatim>\<open>MultiProviderAi.ask\<close>; the delegate is the parameter \<open>super_ask\<close>.\<close>

definition GroqAiWithHistory_ask ::
  "(jsval \<Rightarrow> string) \<Rightarrow> (jsval list \<Rightarrow> 'i \<Rightarrow> world \<Rightarrow> string outcome \<times> 'i \<times> world)
     \<Rightarrow> memory_binding \<Rightarrow> db \<Rightarrow> (nat \<Rightarrow> nat) \<Rightarrow> jsval \<Rightarrow> jsval \<Rightarrow> 'i \<Rightarrow> store \<times> world
     \<Rightarrow> string outcome \<times> 'i \<times> store \<times> world" where
  "GroqAiWithHistory_ask stringify super_ask =
     WithHistory_ask ''GroqAiWithHistory'' ''[Groq Memory] Failed to persist:''
       (plain_entry stringify) super_ask"

definition MistralAiWithHistory_ask ::
  "(jsval \<Rightarrow> string) \<Rightarrow> (jsval list \<Rightarrow> 'i \<Rightarrow> world \<Rightarrow> string outcome \<times> 'i \<times> world)
     \<Rightarrow> memory_binding \<Rightarrow> db \<Rightarrow> (nat \<Rightarrow> nat) \<Rightarrow> jsval \<Rightarrow> jsval \<Rightarrow> 'i \<Rightarrow> store \<times> world
     \<Rightarrow> string outcome \<times> 'i \<times> store \<times> world" where
  "MistralAiWithHistory_ask stringify super_ask =
     WithHistory_ask ''MistralAiWithHistory'' ''[Mistral Memory] Failed to persist:''
       (plain_entry stringify) super_ask"

definition MultiProviderAiWithHistory_ask ::
  "(chat_message list \<Rightarrow> 'i \<Rightarrow> world \<Rightarrow> string outcome \<times> 'i \<times> world)
     \<Rightarrow> memory_binding \<Rightarrow> db \<Rightarrow> (nat \<Rightarrow> nat) \<Rightarrow> jsval \<Rightarrow> jsval \<Rightarrow> 'i \<Rightarrow> store \<times> world
     \<Rightarrow> string outcome \<times> 'i \<times> store \<times> world" where
  "MultiProviderAiWithHistory_ask super_ask =
     WithHistory_ask ''MultiProviderAiWithHistory''
       ''[MultiProvider Memory] Failed to persist chat:'' langchain_entry super_ask"

section \<open>MistralAi.classify\<close>

record classify_options =
  classify_model :: jsval
  classify_timeout :: "int option"

text \<open>\<^verbatim>\<open>inputs == null || (Array.isArray(inputs) && inputs.length === 0)\<close>\<close>

definition inputs_missing :: "jsval \<Rightarrow> bool" where
  "inputs_missing inputs = (inputs = Null \<or> inputs = Undefined \<or> inputs = Arr [])"

text \<open>The error of the engine when a property of null or undefined is read, or a value that
  is not a function is called.\<close>

definition type_error :: js_error where
  "type_error = Error ''TypeError''"

definition or_empty_object :: "jsval \<Rightarrow> jsval" where
  "or_empty_object v = (if truthy v then v else Obj [])"

text \<open>\<^verbatim>\<open>(r) => ({ categories: r.categories || {}, scores: r.category_scores || {} })\<close>\<close>

definition moderation_result :: "jsval \<Rightarrow> js_error + jsval" where
  "moderation_result r =
     (if r = Null \<or> r = Undefined then Inl type_error
      else Inr (Obj [(''categories'', or_empty_object (get_prop r ''categories'')),
                     (''scores'', or_empty_object (get_prop r ''category_scores''))]))"

fun map_results :: "jsval list \<Rightarrow> js_error + jsval list" where
  "map_results [] = Inr []"
| "map_results (r # rs) =
     (case moderation_result r of
        Inl e \<Rightarrow> Inl e
      | Inr x \<Rightarrow> (case map_results rs of Inl e \<Rightarrow> Inl e | Inr xs \<Rightarrow> Inr (x # xs)))"

text \<open>\<^verbatim>\<open>(resp.results || []).map(...)\<close> and the choice between the array and its first item.\<close>

definition moderation_answer :: "bool \<Rightarrow> jsval \<Rightarrow> js_error + jsval" where
  "moderation_answer isArrayInput resp =
     (if resp = Null \<or> resp = Undefined then Inl type_error
      else if truthy (get_prop resp ''results'') \<and> \<not> is_array (get_prop resp ''results'')
        then Inl type_error
      else
        (case map_results (elems (get_prop resp ''results'')) of
           Inl e \<Rightarrow> Inl e
         | Inr mapped \<Rightarrow>
             Inr (if isArrayInput then Arr mapped
                  else (case mapped of
                          [] \<Rightarrow> Obj [(''categories'', Obj []), (''scores'', Obj [])]
                        | x # xs \<Rightarrow> x))))"

definition moderation_timeout :: "jsval \<Rightarrow> int \<Rightarrow> js_error" where
  "moderation_timeout model ms =
     Error (''Moderation model '' @ js_String model @ '' timed out after '' @ int_decimal ms @ ''ms'')"

text \<open>\<open>call\<close> is the fate of the one call of \<^verbatim>\<open>client.classifiers.moderate\<close> the method makes.\<close>

definition MistralAi_classify ::
  "ai \<Rightarrow> jsval \<Rightarrow> classify_options \<Rightarrow> invocation \<Rightarrow> world \<Rightarrow> jsval outcome \<times> world" where
  "MistralAi_classify a inputs options call w =
     (if inputs_missing inputs then (Throws (Error ''inputs is required for classify()''), w)
      else
        (let model = default_to (Str ''mistral-moderation-latest'') (classify_model options);
             isArrayInput = is_array inputs;
             normalizedInputs = (if isArrayInput then elems inputs else [inputs]);
             timeout = (case classify_timeout options of Some n \<Rightarrow> n | None \<Rightarrow> requestTimeoutMs a);
             w1 = w\<lparr>moderations := moderations w @ [(model, normalizedInputs)]\<rparr>
         in case race_timeout timeout (moderation_timeout model timeout) call of
              None \<Rightarrow> (Pending, w1)
            | Some (Inl e) \<Rightarrow> (Throws e, w1)
            | Some (Inr resp) \<Rightarrow>
                (case moderation_answer isArrayInput resp of
                   Inl e \<Rightarrow> (Throws e, w1)
                 | Inr result \<Rightarrow> (Returns result, w1))))"

section \<open>MultiProviderAi\<close>

text \<open>A client is an instance of \<^verbatim>\<open>Ai\<close>, \<^verbatim>\<open>MistralAi\<close> or \<^verbatim>\<open>GroqAi\<close>. \<open>clients\<close> is the object
  \<^verbatim>\<open>this.clients\<close>: its keys in insertion order, each with its client.\<close>

datatype client = OpenRouter ai | Mistral ai | Groq ai

fun client_ai :: "client \<Rightarrow> ai" where
  "client_ai (OpenRouter a) = a"
| "client_ai (Mistral a) = a"
| "client_ai (Groq a) = a"

record multi =
  clients :: "(string \<times> client) list"
  primaryProvider :: jsval
  multi_requestTimeoutMs :: int
  multi_firstToFinish :: jsval
  multi_lastUsedModel :: jsval

record multi_options =
  mopt_apiKeys :: jsval
  mopt_model :: jsval
  mopt_fallbackModels :: jsval
  mopt_requestTimeoutMs :: "int option"
  mopt_firstToFinish :: jsval

text \<open>\<^verbatim>\<open>typeof v === "object"\<close> for a value that is not null.\<close>

fun is_object :: "jsval \<Rightarrow> bool" where
  "is_object (Obj kvs) = True"
| "is_object (Arr xs) = True"
| "is_object v = False"

definition providerConfigs :: "string \<Rightarrow> ((ai_options \<Rightarrow> js_error + ai) \<times> (ai \<Rightarrow> client)) option" where
  "providerConfigs provider =
     (if provider = ''openrouter'' then Some (Ai_new, OpenRouter)
      else if provider = ''mistral'' then Some (MistralAi_new, Mistral)
      else if provider = ''groq'' then Some (GroqAi_new, Groq)
      else None)"

text \<open>\<^verbatim>\<open>obj[k] = v\<close>: a key that is there keeps its place.\<close>

fun assign :: "string \<Rightarrow> 'v \<Rightarrow> (string \<times> 'v) list \<Rightarrow> (string \<times> 'v) list" where
  "assign k v [] = [(k, v)]"
| "assign k v ((k', v') # kvs) = (if k' = k then (k, v) # kvs else (k', v') # assign k v kvs)"

text \<open>The loop over \<^verbatim>\<open>Object.entries(apiKeys)\<close>.\<close>

fun build_clients ::
  "jsval \<Rightarrow> jsval \<Rightarrow> int \<Rightarrow> jsval \<Rightarrow> (string \<times> jsval) list \<Rightarrow> (string \<times> client) list
     \<Rightarrow> js_error + (string \<times> client) list" where
  "build_clients model fallbackModels ms ftf [] acc = Inr acc"
| "build_clients model fallbackModels ms ftf ((provider, key) # rest) acc =
     (if \<not> truthy key then build_clients model fallbackModels ms ftf rest acc
      else
        (case providerConfigs provider of
           None \<Rightarrow> build_clients model fallbackModels ms ftf rest acc
         | Some (new, wrap) \<Rightarrow>
             (let isPrimary =
                    (truthy model \<and> is_object model \<and> get_prop model ''provider'' = Str provider
                     \<and> is_string (get_prop model ''name'') \<and> str_of (get_prop model ''name'') \<noteq> []);
                  fallbacks = get_prop fallbackModels provider;
                  ctorOptions =
                    \<lparr> opt_apiKey = key,
                      opt_model = (if isPrimary then get_prop model ''name'' else Undefined),
                      opt_fallbackModels =
                        (if is_array fallbacks \<and> elems fallbacks \<noteq> [] then Some (elems fallbacks)
                         else None),
                      opt_requestTimeoutMs = Some ms,
                      opt_firstToFinish = ftf \<rparr>
              in case new ctorOptions of
                   Inl e \<Rightarrow> Inl e
                 | Inr a \<Rightarrow>
                     build_clients model fallbackModels ms ftf rest (assign provider (wrap a) acc))))"

definition MultiProviderAi_new :: "multi_options \<Rightarrow> js_error + multi" where
  "MultiProviderAi_new opts =
     (let apiKeys = default_to (Obj [(''openrouter'', Str []), (''mistral'', Str []), (''groq'', Str [])])
                      (mopt_apiKeys opts);
          model = default_to (Obj [(''provider'', Str ''mistral''), (''name'', Str ''mistral-small-latest'')])
                    (mopt_model opts);
          fallbackModels = default_to (Obj [(''openrouter'', Arr []), (''mistral'', Arr []), (''groq'', Arr [])])
                             (mopt_fallbackModels opts);
          ms = (case mopt_requestTimeoutMs opts of None \<Rightarrow> 20000 | Some n \<Rightarrow> n);
          ftf = default_to (Bool False) (mopt_firstToFinish opts)
      in if \<not> truthy apiKeys \<or> \<not> is_object apiKeys
         then Inl (Error ''apiKeys must be a non-null object with provider keys'')
         else
           (case build_clients model fallbackModels ms ftf
                   (case apiKeys of Obj kvs \<Rightarrow> kvs | _ \<Rightarrow> []) [] of
              Inl e \<Rightarrow> Inl e
            | Inr cs \<Rightarrow>
                Inr \<lparr> clients = cs,
                      primaryProvider =
                        (if truthy model \<and> is_object model then get_prop model ''provider''
                         else Undefined),
                      multi_requestTimeoutMs = ms,
                      multi_firstToFinish = ftf,
                      multi_lastUsedModel = Null \<rparr>))"

definition getOrderedProviders :: "multi \<Rightarrow> string list" where
  "getOrderedProviders m =
     (let available = map fst (clients m)
      in case available of
           [] \<Rightarrow> []
         | first # others \<Rightarrow>
             (let preferred =
                    (case primaryProvider m of
                       Str p \<Rightarrow> if p \<noteq> [] \<and> p \<in> set available then p else first
                     | _ \<Rightarrow> first)
              in preferred # filter (\<lambda>p. p \<noteq> preferred) available))"

text \<open>The method \<^verbatim>\<open>classify\<close> of a client, if its class has one: only \<^verbatim>\<open>MistralAi\<close> does.\<close>

definition client_classify ::
  "client \<Rightarrow> (jsval \<Rightarrow> classify_options \<Rightarrow> invocation \<Rightarrow> world \<Rightarrow> jsval outcome \<times> world) option" where
  "client_classify c = (case c of Mistral a \<Rightarrow> Some (MistralAi_classify a) | _ \<Rightarrow> None)"

definition can_classify :: "multi \<Rightarrow> string \<Rightarrow> bool" where
  "can_classify m p = (case map_of (clients m) p of Some c \<Rightarrow> client_classify c \<noteq> None | None \<Rightarrow> False)"

definition used_model :: "string \<Rightarrow> client \<Rightarrow> jsval" where
  "used_model provider c =
     Obj [(''provider'', Str provider),
          (''model'', if truthy (lastUsedModel (client_ai c)) then lastUsedModel (client_ai c) else Null)]"

text \<open>\<open>net p\<close> is the fate of a moderation call made through the client of provider \<open>p\<close>.\<close>

definition MultiProviderAi_classify ::
  "multi \<Rightarrow> jsval \<Rightarrow> classify_options \<Rightarrow> (string \<Rightarrow> invocation) \<Rightarrow> world
     \<Rightarrow> jsval outcome \<times> multi \<times> world" where
  "MultiProviderAi_classify m inputs options net w =
     (if inputs_missing inputs then (Throws (Error ''inputs is required for classify()''), m, w)
      else
        (case filter (can_classify m) (getOrderedProviders m) of
           [] \<Rightarrow> (Throws (Error ''No providers with classify() configured for MultiProviderAi''), m, w)
         | provider # others \<Rightarrow>
             (case map_of (clients m) provider of
                None \<Rightarrow> (Throws type_error, m, w)
              | Some c \<Rightarrow>
                  (case client_classify c of
                     None \<Rightarrow> (Throws type_error, m, w)
                   | Some classify \<Rightarrow>
                       (case classify inputs options (net provider) w of
                          (Returns result, w1) \<Rightarrow>
                            (Returns result, m\<lparr>multi_lastUsedModel := used_model provider c\<rparr>, w1)
                        | (Throws e, w1) \<Rightarrow> (Throws e, m, w1)
                        | (Pending, w1) \<Rightarrow> (Pending, m, w1))))))"

section \<open>Transcription\<close>

text \<open>
  \<^verbatim>\<open>GroqAi.transcribe\<close> and \<^verbatim>\<open>MistralAi.transcribe\<close> have the same candidate list, the same
  \<^verbatim>\<open>runOnce\<close>, the same loop and the same race; their strings differ in the provider's name
  only, which is the parameter \<open>name\<close> below (\<open>''Groq''\<close> or \<open>''Mistral''\<close>).

  The \<^verbatim>\<open>file\<close> argument is a string (a path, for Mistral also a URL), a buffer, a readable
  stream (with what reading it to its end gives) or some other value. The further request
  fields (temperature, language, timestamp granularities) are passed on unchanged and left out.
\<close>

datatype file_arg =
    FileString string
  | FileBuffer string
  | FileStream "js_error + string"
  | FileOther jsval

fun file_truthy :: "file_arg \<Rightarrow> bool" where
  "file_truthy (FileString s) = (s \<noteq> [])"
| "file_truthy (FileBuffer b) = True"
| "file_truthy (FileStream r) = True"
| "file_truthy (FileOther v) = truthy v"

record transcribe_options =
  tr_file :: file_arg
  tr_model :: jsval

text \<open>\<^verbatim>\<open>model ? [model] : this.models.length ? this.models : [default]\<close>, on the \<^verbatim>\<open>model\<close>
  parameter after its destructuring default.\<close>

definition candidates :: "string \<Rightarrow> ai \<Rightarrow> jsval \<Rightarrow> jsval list" where
  "candidates default_model a model_arg =
     (let model = default_to (Str default_model) model_arg
      in if truthy model then [model]
         else if models a \<noteq> [] then models a
         else [Str default_model])"

definition transcription_timeout :: "string \<Rightarrow> jsval \<Rightarrow> int \<Rightarrow> js_error" where
  "transcription_timeout name targetModel ms =
     Error (name @ '' transcription model '' @ js_String targetModel @ '' timed out after ''
            @ int_decimal ms @ ''ms'')"

definition empty_transcription :: "string \<Rightarrow> jsval \<Rightarrow> js_error" where
  "empty_transcription name targetModel =
     Error (name @ '' transcription returned empty text for '' @ js_String targetModel)"

text \<open>\<^verbatim>\<open>runOnce\<close>: the text is tested before it is trimmed; \<^verbatim>\<open>trim\<close> of a truthy value that is
  not a string is a type error.\<close>

definition runOnce :: "string \<Rightarrow> ai \<Rightarrow> jsval \<Rightarrow> invocation \<Rightarrow> attempt_outcome option" where
  "runOnce name a targetModel call =
     (case race_timeout (requestTimeoutMs a)
             (transcription_timeout name targetModel (requestTimeoutMs a)) call of
        None \<Rightarrow> None
      | Some (Inl e) \<Rightarrow> Some (Failure e)
      | Some (Inr resp) \<Rightarrow>
          (let text = get_prop resp ''text''
           in if \<not> truthy text then Some (Failure (empty_transcription name targetModel))
              else if is_string text then Some (Success (js_trim (str_of text)))
              else Some (Failure type_error)))"

definition transcription_log :: "string \<Rightarrow> js_error \<Rightarrow> world \<Rightarrow> world" where
  "transcription_log name e w =
     w\<lparr>console := console w @
          [(''['' @ name @ ''AI] transcription failed:'',
            if message e \<noteq> [] then Text (message e) else Thrown e)]\<rparr>"

definition record_transcription :: "string \<Rightarrow> jsval \<Rightarrow> world \<Rightarrow> world" where
  "record_transcription name targetModel w =
     w\<lparr>transcriptions := transcriptions w @ [(name, targetModel)]\<rparr>"

definition all_transcriptions_failed :: "string \<Rightarrow> js_error" where
  "all_transcriptions_failed name = Error (''All '' @ name @ '' transcription models failed'')"

fun transcribe_sequential ::
  "string \<Rightarrow> ai \<Rightarrow> (nat \<Rightarrow> invocation) \<Rightarrow> nat \<Rightarrow> jsval list \<Rightarrow> js_error option \<Rightarrow> world
     \<Rightarrow> string outcome \<times> ai \<times> world" where
  "transcribe_sequential name a net i [] last_error w =
     (Throws (case last_error of Some e \<Rightarrow> e | None \<Rightarrow> all_transcriptions_failed name), a, w)"
| "transcribe_sequential name a net i (m # rest) last_error w =
     (case runOnce name a m (net i) of
        None \<Rightarrow> (Pending, a, record_transcription name m w)
      | Some (Success text) \<Rightarrow>
          (Returns text, a\<lparr>lastUsedModel := m\<rparr>, record_transcription name m w)
      | Some (Failure e) \<Rightarrow>
          transcribe_sequential name a net (Suc i) rest (Some e)
            (transcription_log name e (record_transcription name m w)))"

definition transcribe_finally :: "string \<Rightarrow> race \<Rightarrow> race" where
  "transcribe_finally name r =
     (let r1 = r\<lparr>remaining := remaining r - 1\<rparr>
      in if \<not> settled r1 \<and> remaining r1 = 0
         then reject (case lastError r1 of Some e \<Rightarrow> e | None \<Rightarrow> all_transcriptions_failed name)
                (r1\<lparr>settled := True\<rparr>)
         else r1)"

definition transcribe_complete ::
  "string \<Rightarrow> (nat \<Rightarrow> invocation) \<Rightarrow> jsval list \<Rightarrow> race \<Rightarrow> nat \<Rightarrow> race" where
  "transcribe_complete name net ms r i =
     (if i < length ms then
        (let m = ms ! i in
         case runOnce name (self r) m (net i) of
           None \<Rightarrow> r
         | Some (Success text) \<Rightarrow>
             transcribe_finally name
               (if \<not> settled r
                then resolve text (r\<lparr>settled := True, self := (self r)\<lparr>lastUsedModel := m\<rparr>\<rparr>)
                else r)
         | Some (Failure e) \<Rightarrow>
             transcribe_finally name
               (r\<lparr>lastError := Some e, env := transcription_log name e (env r)\<rparr>))
      else r)"

definition transcribe_launch :: "string \<Rightarrow> ai \<Rightarrow> jsval list \<Rightarrow> world \<Rightarrow> race" where
  "transcribe_launch name a ms w =
     \<lparr> settled = False, remaining = int (length ms), lastError = None,
       promise = Pending, resolve_calls = 0, reject_calls = 0, self = a,
       env = foldl (\<lambda>w m. record_transcription name m w) w ms \<rparr>"

text \<open>The two branches over the candidate list \<open>ms\<close>; \<open>net i\<close> is the fate of the call for the
  candidate at position \<open>i\<close>, \<open>order\<close> the order in which raced attempts finish.\<close>

definition transcribe_models ::
  "string \<Rightarrow> ai \<Rightarrow> jsval list \<Rightarrow> (nat \<Rightarrow> invocation) \<Rightarrow> nat list \<Rightarrow> world
     \<Rightarrow> string outcome \<times> ai \<times> world" where
  "transcribe_models name a ms net order w =
     (if \<not> truthy (firstToFinish a) \<or> length ms = 1
      then transcribe_sequential name a net 0 ms None w
      else (let r = foldl (transcribe_complete name net ms) (transcribe_launch name a ms w) order
            in (promise r, self r, env r)))"

definition GroqAi_transcribe ::
  "ai \<Rightarrow> transcribe_options \<Rightarrow> (nat \<Rightarrow> invocation) \<Rightarrow> nat list \<Rightarrow> world
     \<Rightarrow> string outcome \<times> ai \<times> world" where
  "GroqAi_transcribe a opts net order w =
     (if \<not> file_truthy (tr_file opts)
      then (Throws (Error ''file is required for GroqAi.transcribe''), a, w)
      else transcribe_models ''Groq'' a
             (candidates ''whisper-large-v3-turbo'' a (tr_model opts)) net order w)"

text \<open>\<^verbatim>\<open>MistralAi.transcribe\<close> first turns the file into a request field: a stream is read to
  its end, a string is a URL when it starts with "http" and a path to read otherwise, a buffer
  is taken as it is, anything else is refused. Reading a file is the parameter
  \<open>readFileSync\<close>. Its candidates run inside a \<^verbatim>\<open>try\<close> whose \<^verbatim>\<open>catch\<close> logs and rethrows.\<close>

definition prepare_file :: "(string \<Rightarrow> js_error + string) \<Rightarrow> file_arg \<Rightarrow> js_error + unit" where
  "prepare_file readFileSync file =
     (case file of
        FileStream (Inl e) \<Rightarrow> Inl e
      | FileStream (Inr bytes) \<Rightarrow> Inr ()
      | FileString s \<Rightarrow>
          if take 4 s = ''http'' then Inr ()
          else (case readFileSync s of Inl e \<Rightarrow> Inl e | Inr bytes \<Rightarrow> Inr ())
      | FileBuffer b \<Rightarrow> Inr ()
      | FileOther v \<Rightarrow>
          Inl (Error ''file must be a string (path or URL), Buffer, or ReadableStream''))"

definition MistralAi_transcribe ::
  "(string \<Rightarrow> js_error + string) \<Rightarrow> ai \<Rightarrow> transcribe_options \<Rightarrow> (nat \<Rightarrow> invocation) \<Rightarrow> nat list
     \<Rightarrow> world \<Rightarrow> string outcome \<times> ai \<times> world" where
  "MistralAi_transcribe readFileSync a opts net order w =
     (if \<not> file_truthy (tr_file opts)
      then (Throws (Error ''file is required for MistralAi.transcribe''), a, w)
      else
        (case prepare_file readFileSync (tr_file opts) of
           Inl e \<Rightarrow> (Throws e, a, w)
         | Inr ready \<Rightarrow>
             (case transcribe_models ''Mistral'' a
                     (candidates ''voxtral-mini-latest'' a (tr_model opts)) net order w of
                (Throws e, a1, w1) \<Rightarrow> (Throws e, a1, transcription_log ''Mistral'' e w1)
              | (Returns text, a1, w1) \<Rightarrow> (Returns text, a1, w1)
              | (Pending, a1, w1) \<Rightarrow> (Pending, a1, w1))))"

section \<open>Scenarios for the worked examples\<close>

text \<open>Concrete instances, requests and network behaviours on which the properties below are
  evaluated. \<open>reply s\<close> is a provider response whose content is the string \<open>s\<close>.\<close>

definition reply :: "string \<Rightarrow> jsval" where
  "reply s = Obj [(''content'', Str s)]"

definition roster_ABC :: "jsval \<Rightarrow> ai" where
  "roster_ABC ftf =
     \<lparr> apiKey = Str ''key'', models = [Str ''A'', Str ''B'', Str ''C''],
       requestTimeoutMs = 20000, firstToFinish = ftf, lastUsedModel = Null \<rparr>"

definition roster_AB :: "jsval \<Rightarrow> ai" where
  "roster_AB ftf =
     \<lparr> apiKey = Str ''key'', models = [Str ''A'', Str ''B''],
       requestTimeoutMs = 20000, firstToFinish = ftf, lastUsedModel = Null \<rparr>"

definition hello :: request where
  "hello = \<lparr> system = Undefined, messages = [],
             user_message = Some (HumanMessage (Str ''hello'')),
             contentForHistory = Str ''hello'' \<rparr>"

definition quiet :: world where
  "quiet = \<lparr> console = [], invoked = [], moderations = [], transcriptions = [] \<rparr>"

text \<open>A rejects with "x", B is still silent when its timer fires, C answers "hi".\<close>

definition net_fail_fail_hi :: "nat \<Rightarrow> invocation" where
  "net_fail_fail_hi i =
     (if i = 0 then Settles 40 (Rejects (Error ''x''))
      else if i = 1 then Never
      else Settles 7 (Resolves (reply ''hi'')))"

definition errs_x_timeout :: "nat \<Rightarrow> js_error" where
  "errs_x_timeout j = (if j = 0 then Error ''x'' else Error ''Model B timed out after 20000ms'')"

text \<open>A answers "a", B answers "b", C rejects with "down".\<close>

definition net_a_b_down :: "nat \<Rightarrow> invocation" where
  "net_a_b_down i =
     (if i = 0 then Settles 900 (Resolves (reply ''a''))
      else if i = 1 then Settles 300 (Resolves (reply ''b''))
      else Settles 100 (Rejects (Error ''down'')))"

text \<open>A transcription service that rejects the first call with "x" and hears " hi " in
  every later one.\<close>

definition net_x_heard :: "nat \<Rightarrow> invocation" where
  "net_x_heard i =
     (if i = 0 then Settles 40 (Rejects (Error ''x''))
      else Settles 7 (Resolves (Obj [(''text'', Str '' hi '')])))"

text \<open>The \<open>k\<close>-th turn of a long conversation, the document it becomes when it is appended
  as the \<open>k\<close>-th single-turn append at clock reading \<open>k\<close>, and \<open>n\<close> such appends in a row,
  each followed by its trim.\<close>

definition turn :: "nat \<Rightarrow> jsval" where
  "turn k = Obj [(''role'', Str ''user''), (''content'', Str (nat_decimal k))]"

definition turn_doc :: "nat \<Rightarrow> doc" where
  "turn_doc k =
     \<lparr> doc_id = k, doc_chatId = ''chat'', doc_scope = Str ''scope'', doc_role = Str ''user'',
       doc_content = Str (nat_decimal k), doc_createdAt = k \<rparr>"

fun appends :: "nat \<Rightarrow> store \<times> console_lines" where
  "appends 0 = (empty_store, [])"
| "appends (Suc n) =
     snd (appendMessages_trimmed healthy (\<lambda>k. n) (Str ''chat'') (Str ''scope'') (Arr [turn n])
            (appends n))"

text \<open>A multi-provider instance with all three providers, Groq preferred, racing switched on
  or off.\<close>

definition three_keys :: "jsval \<Rightarrow> multi_options" where
  "three_keys ftf =
     \<lparr> mopt_apiKeys = Obj [(''openrouter'', Str ''k1''), (''mistral'', Str ''k2''), (''groq'', Str ''k3'')],
       mopt_model = Obj [(''provider'', Str ''groq''), (''name'', Str ''g1'')],
       mopt_fallbackModels = Obj [(''mistral'', Arr [Str ''m2''])],
       mopt_requestTimeoutMs = Some 5000,
       mopt_firstToFinish = ftf \<rparr>"

definition provider_ai :: "string \<Rightarrow> jsval list \<Rightarrow> jsval \<Rightarrow> ai" where
  "provider_ai key ms ftf =
     \<lparr> apiKey = Str key, models = ms, requestTimeoutMs = 5000, firstToFinish = ftf,
       lastUsedModel = Null \<rparr>"

definition three_providers :: "jsval \<Rightarrow> multi" where
  "three_providers ftf =
     \<lparr> clients =
         [(''openrouter'', OpenRouter (provider_ai ''k1'' [Str ''meta-llama/llama-3.3-70b-instruct:free''] ftf)),
          (''mistral'', Mistral (provider_ai ''k2'' [Str ''mistral-small-latest'', Str ''m2''] ftf)),
          (''groq'', Groq (provider_ai ''k3'' [Str ''g1''] ftf))],
       primaryProvider = Str ''groq'',
       multi_requestTimeoutMs = 5000,
       multi_firstToFinish = ftf,
       multi_lastUsedModel = Null \<rparr>"

chapter \<open>Properties\<close>

section \<open>The sequential loop\<close>

lemma ask_sequential_first_success:
  "k < length ms \<Longrightarrow>
   (\<And>j. j < k \<Longrightarrow> run_attempt a (ms ! j) (net (i + j)) = Some (Failure (errs (i + j)))) \<Longrightarrow>
   run_attempt a (ms ! k) (net (i + k)) = Some (Success text) \<Longrightarrow>
   ask_sequential a p net i ms le w =
     (Returns text, a\<lparr>lastUsedModel := ms ! k\<rparr>,
      w\<lparr>console := console w @ map (\<lambda>j. failure_log (ms ! j) (errs (i + j))) [0..<k],
        invoked := invoked w @ map (\<lambda>m. (m, p)) (take (Suc k) ms)\<rparr>)"
proof (induction ms arbitrary: i k le w)
  case Nil
  then show ?case by simp
next
  case (Cons m ms)
  show ?case
  proof (cases k)
    case 0
    with Cons.prems show ?thesis by (simp add: record_invoke_def)
  next
    case (Suc k')
    have h0: "run_attempt a m (net i) = Some (Failure (errs i))"
      using Cons.prems(2)[of 0] Suc by simp
    have h1: "\<And>j. j < k' \<Longrightarrow>
        run_attempt a (ms ! j) (net (Suc i + j)) = Some (Failure (errs (Suc i + j)))"
      using Cons.prems(2)[of "Suc _"] Suc by simp
    have h2: "run_attempt a (ms ! k') (net (Suc i + k')) = Some (Success text)"
      using Cons.prems(3) Suc by simp
    have h3: "k' < length ms" using Cons.prems(1) Suc by simp
    show ?thesis
      using Cons.IH[OF h3 h1 h2] h0 Suc
      by (simp add: record_invoke_def log_failure_def map_upt_Suc del: upt_Suc)
  qed
qed

lemma ask_sequential_all_fail:
  "(\<And>j. j < length ms \<Longrightarrow> run_attempt a (ms ! j) (net (i + j)) = Some (Failure (errs (i + j)))) \<Longrightarrow>
   ask_sequential a p net i ms le w =
     (Throws (if ms = [] then (case le of Some e \<Rightarrow> e | None \<Rightarrow> Error ''All AI models failed'')
              else errs (i + (length ms - 1))),
      a,
      w\<lparr>console := console w @ map (\<lambda>j. failure_log (ms ! j) (errs (i + j))) [0..<length ms],
        invoked := invoked w @ map (\<lambda>m. (m, p)) ms\<rparr>)"
proof (induction ms arbitrary: i le w)
  case Nil
  then show ?case by simp
next
  case (Cons m ms)
  have h0: "run_attempt a m (net i) = Some (Failure (errs i))"
    using Cons.prems[of 0] by simp
  have h1: "\<And>j. j < length ms \<Longrightarrow>
      run_attempt a (ms ! j) (net (Suc i + j)) = Some (Failure (errs (Suc i + j)))"
    using Cons.prems[of "Suc _"] by simp
  show ?case
    using Cons.IH[OF h1] h0
    by (cases ms) (simp_all add: record_invoke_def log_failure_def map_upt_Suc del: upt_Suc)
qed

lemma ask_sequential_cong:
  "(\<And>j. j < length ms \<Longrightarrow> run_attempt a (ms ! j) (net (i + j)) = run_attempt a (ms ! j) (net' (i + j))) \<Longrightarrow>
   ask_sequential a p net i ms le w = ask_sequential a p net' i ms le w"
proof (induction ms arbitrary: i le w)
  case Nil
  then show ?case by simp
next
  case (Cons m ms)
  have h0: "run_attempt a m (net i) = run_attempt a m (net' i)"
    using Cons.prems[of 0] by simp
  have h1: "\<And>j. j < length ms \<Longrightarrow>
      run_attempt a (ms ! j) (net (Suc i + j)) = run_attempt a (ms ! j) (net' (Suc i + j))"
    using Cons.prems[of "Suc _"] by simp
  show ?case
    using Cons.IH[OF h1] h0
    by (simp split: option.splits attempt_outcome.splits)
qed

section \<open>The race\<close>

lemma run_attempt_lastUsedModel [simp]:
  "run_attempt (a\<lparr>lastUsedModel := m\<rparr>) model c = run_attempt a model c"
  by (simp add: run_attempt_def)

lemma complete_settled:
  "settled r \<Longrightarrow>
     settled (complete net r i) \<and> promise (complete net r i) = promise r
     \<and> self (complete net r i) = self r
     \<and> resolve_calls (complete net r i) = resolve_calls r
     \<and> reject_calls (complete net r i) = reject_calls r"
  by (simp add: complete_def finally_block_def Let_def
           split: option.splits attempt_outcome.splits)

lemma foldl_complete_settled:
  "settled r \<Longrightarrow>
     settled (foldl (complete net) r js) \<and> promise (foldl (complete net) r js) = promise r
     \<and> self (foldl (complete net) r js) = self r
     \<and> resolve_calls (foldl (complete net) r js) = resolve_calls r
     \<and> reject_calls (foldl (complete net) r js) = reject_calls r"
proof (induction js arbitrary: r)
  case Nil
  then show ?case by simp
next
  case (Cons j js)
  from complete_settled[OF Cons.prems, of net j] Cons.IH[of "complete net r j"]
  show ?case by simp
qed

lemma complete_no_success:
  assumes "\<not> settled r" "1 < remaining r"
    "\<And>t. run_attempt (self r) (models (self r) ! j) (net j) \<noteq> Some (Success t)"
  shows "\<not> settled (complete net r j) \<and> promise (complete net r j) = promise r
     \<and> self (complete net r j) = self r
     \<and> resolve_calls (complete net r j) = resolve_calls r
     \<and> reject_calls (complete net r j) = reject_calls r
     \<and> remaining r - 1 \<le> remaining (complete net r j)"
  using assms
  by (simp add: complete_def finally_block_def Let_def
           split: option.splits attempt_outcome.splits)

lemma foldl_complete_no_success:
  assumes "\<not> settled r" "int (length fs) < remaining r"
    "\<And>j t. j \<in> set fs \<Longrightarrow> run_attempt (self r) (models (self r) ! j) (net j) \<noteq> Some (Success t)"
  shows "\<not> settled (foldl (complete net) r fs) \<and> promise (foldl (complete net) r fs) = promise r
     \<and> self (foldl (complete net) r fs) = self r
     \<and> resolve_calls (foldl (complete net) r fs) = resolve_calls r
     \<and> reject_calls (foldl (complete net) r fs) = reject_calls r
     \<and> remaining r - int (length fs) \<le> remaining (foldl (complete net) r fs)"
  using assms
proof (induction fs rule: rev_induct)
  case Nil
  then show ?case by simp
next
  case (snoc j fs)
  let ?r = "foldl (complete net) r fs"
  have ih: "\<not> settled ?r \<and> promise ?r = promise r \<and> self ?r = self r
     \<and> resolve_calls ?r = resolve_calls r \<and> reject_calls ?r = reject_calls r
     \<and> remaining r - int (length fs) \<le> remaining ?r"
    using snoc by simp
  have "1 < remaining ?r" using ih snoc.prems(2) by simp
  moreover have "\<And>t. run_attempt (self ?r) (models (self ?r) ! j) (net j) \<noteq> Some (Success t)"
    using ih snoc.prems(3) by simp
  ultimately show ?case
    using complete_no_success[of ?r j net] ih by simp
qed

lemma complete_first_success:
  assumes "\<not> settled r" "i < length (models (self r))"
    "run_attempt (self r) (models (self r) ! i) (net i) = Some (Success text)"
    "promise r = Pending"
  shows "settled (complete net r i) \<and> promise (complete net r i) = Returns text
     \<and> self (complete net r i) = (self r)\<lparr>lastUsedModel := models (self r) ! i\<rparr>
     \<and> resolve_calls (complete net r i) = Suc (resolve_calls r)
     \<and> reject_calls (complete net r i) = reject_calls r"
  using assms
  by (simp add: complete_def finally_block_def resolve_def Let_def)

lemma complete_failure:
  assumes "i < length (models (self r))"
    "run_attempt (self r) (models (self r) ! i) (net i) = Some (Failure e)"
  shows "complete net r i =
     finally_block (r\<lparr>lastError := Some e, env := log_failure (models (self r) ! i) e (env r)\<rparr>)"
  using assms by (simp add: complete_def)

lemma foldl_complete_failures:
  assumes "\<not> settled r" "int (length fs) < remaining r"
    "\<forall>j\<in>set fs. j < length (models (self r)) \<and>
        run_attempt (self r) (models (self r) ! j) (net j) = Some (Failure (errs j))"
  shows "foldl (complete net) r fs =
     r\<lparr>remaining := remaining r - int (length fs),
       lastError := (if fs = [] then lastError r else Some (errs (last fs))),
       env := (env r)\<lparr>console := console (env r) @
                 map (\<lambda>j. failure_log (models (self r) ! j) (errs j)) fs\<rparr>\<rparr>"
  using assms
proof (induction fs rule: rev_induct)
  case Nil
  then show ?case by simp
next
  case (snoc j fs)
  let ?r = "foldl (complete net) r fs"
  have ih: "?r = r\<lparr>remaining := remaining r - int (length fs),
       lastError := (if fs = [] then lastError r else Some (errs (last fs))),
       env := (env r)\<lparr>console := console (env r) @
                 map (\<lambda>j. failure_log (models (self r) ! j) (errs j)) fs\<rparr>\<rparr>"
    using snoc by simp
  have j: "j < length (models (self ?r))"
     "run_attempt (self ?r) (models (self ?r) ! j) (net j) = Some (Failure (errs j))"
    using snoc.prems(3) by (simp_all add: ih)
  have "foldl (complete net) r (fs @ [j]) = complete net ?r j" by simp
  also have "\<dots> = finally_block (?r\<lparr>lastError := Some (errs j),
                 env := log_failure (models (self ?r) ! j) (errs j) (env ?r)\<rparr>)"
    using complete_failure[of j ?r net "errs j"] j by simp
  also have "\<dots> = r\<lparr>remaining := remaining r - int (length (fs @ [j])),
       lastError := (if fs @ [j] = [] then lastError r else Some (errs (last (fs @ [j])))),
       env := (env r)\<lparr>console := console (env r) @
                 map (\<lambda>j. failure_log (models (self r) ! j) (errs j)) (fs @ [j])\<rparr>\<rparr>"
    using snoc.prems(1,2) by (simp add: ih finally_block_def log_failure_def Let_def)
  finally show ?case .
qed

lemma complete_config:
  "models (self (complete net r i)) = models (self r)
   \<and> requestTimeoutMs (self (complete net r i)) = requestTimeoutMs (self r)"
  by (simp add: complete_def finally_block_def resolve_def reject_def Let_def
           split: option.splits attempt_outcome.splits)

lemma run_attempt_config:
  "requestTimeoutMs b = requestTimeoutMs a \<Longrightarrow> run_attempt b model c = run_attempt a model c"
  by (simp add: run_attempt_def)

lemma foldl_complete_cong:
  assumes "\<And>j. j < length (models (self r)) \<Longrightarrow>
      run_attempt (self r) (models (self r) ! j) (net j)
        = run_attempt (self r) (models (self r) ! j) (net' j)"
  shows "foldl (complete net) r js = foldl (complete net') r js"
  using assms
proof (induction js arbitrary: r)
  case Nil
  then show ?case by simp
next
  case (Cons i js)
  have step: "complete net r i = complete net' r i"
    using Cons.prems[of i] by (simp add: complete_def)
  have "\<And>j. j < length (models (self (complete net r i))) \<Longrightarrow>
      run_attempt (self (complete net r i)) (models (self (complete net r i)) ! j) (net j)
        = run_attempt (self (complete net r i)) (models (self (complete net r i)) ! j) (net' j)"
    using Cons.prems complete_config[of net r i]
          run_attempt_config[of "self (complete net r i)" "self r"]
    by simp
  from Cons.IH[OF this] step show ?case by simp
qed

lemma distinct_positions_length:
  "distinct xs \<Longrightarrow> set xs \<subseteq> {..<n} \<Longrightarrow> length xs \<le> n"
  by (metis card_lessThan card_mono distinct_card finite_lessThan)
lemma complete_settles_once:
  assumes "if settled r then resolve_calls r + reject_calls r = 1
           else resolve_calls r + reject_calls r = 0"
  shows "if settled (complete net r i)
         then resolve_calls (complete net r i) + reject_calls (complete net r i) = 1
         else resolve_calls (complete net r i) + reject_calls (complete net r i) = 0"
  using assms
  by (auto simp add: complete_def finally_block_def resolve_def reject_def Let_def
        split: option.splits attempt_outcome.splits if_splits)

lemma foldl_complete_settles_once:
  assumes "if settled r then resolve_calls r + reject_calls r = 1
           else resolve_calls r + reject_calls r = 0"
  shows "resolve_calls (foldl (complete net) r js) + reject_calls (foldl (complete net) r js) \<le> 1"
  using assms
proof (induction js arbitrary: r)
  case Nil
  then show ?case by (simp split: if_splits)
next
  case (Cons j js)
  show ?case
    using Cons.IH[OF complete_settles_once[OF Cons.prems]] by simp
qed

lemma ask_racing_settles_once:
  "resolve_calls (ask_racing a p net order w) + reject_calls (ask_racing a p net order w) \<le> 1"
  unfolding ask_racing_def
  by (rule foldl_complete_settles_once) (simp add: launch_def)

section \<open>Trimming a partition\<close>

lemma insort_key_last:
  "\<forall>y\<in>set ys. f y < f x \<Longrightarrow> insort_key f x ys = ys @ [x]"
  by (induction ys) auto

lemma sort_key_strictly_decreasing:
  "sorted_wrt (\<lambda>a b. f b < f a) xs \<Longrightarrow> sort_key f xs = rev xs"
  by (induction xs) (auto simp add: insort_key_last)

lemma sorted_take_drop:
  assumes "sorted (map f xs)" "a \<in> set (take n xs)" "b \<in> set (drop n xs)"
  shows "f a \<le> f b"
proof -
  have "sorted (map f (take n xs) @ map f (drop n xs))"
    using assms(1) by (simp flip: map_append)
  then show ?thesis
    using assms(2,3) by (auto simp add: sorted_append)
qed

lemma newest_first_take_drop:
  assumes "kept \<in> set (take n (sort_newest_first xs))" "gone \<in> set (drop n (sort_newest_first xs))"
  shows "doc_createdAt gone \<le> doc_createdAt kept"
proof -
  have "sorted (map (\<lambda>d. - int (doc_createdAt d)) (sort_newest_first xs))"
    by (simp add: sort_newest_first_def)
  from sorted_take_drop[OF this assms] show ?thesis by simp
qed

lemma distinct_ids_distinct: "distinct (map doc_id xs) \<Longrightarrow> distinct xs"
  by (rule distinct_map[THEN iffD1, THEN conjunct1])

lemma delete_by_id:
  assumes "distinct (map doc_id xs)" "set stale \<subseteq> set xs"
  shows "filter (\<lambda>x. doc_id x \<notin> set (map doc_id stale)) xs = filter (\<lambda>x. x \<notin> set stale) xs"
proof (rule filter_cong[OF refl])
  fix x assume x: "x \<in> set xs"
  have inj: "inj_on doc_id (set xs)"
    using assms(1) by (simp add: distinct_map)
  show "(doc_id x \<notin> set (map doc_id stale)) = (x \<notin> set stale)"
    using inj x assms(2) by (auto dest: inj_onD)
qed

lemma trim_partition:
  fixes P :: "doc \<Rightarrow> bool" and n :: nat and xs :: "doc list"
  assumes ids: "distinct (map doc_id xs)"
  defines "part \<equiv> filter P xs"
  defines "stale \<equiv> drop n (sort_newest_first part)"
  defines "xs' \<equiv> filter (\<lambda>x. doc_id x \<notin> set (map doc_id stale)) xs"
  shows "set (filter P xs') = set (take n (sort_newest_first part))"
    and "length (filter P xs') = min n (length part)"
    and "filter (\<lambda>x. \<not> P x) xs' = filter (\<lambda>x. \<not> P x) xs"
    and "distinct (map doc_id xs')"
proof -
  let ?srt = "sort_newest_first part"
  have dx: "distinct xs" using ids by (rule distinct_ids_distinct)
  have dpart: "distinct part" using dx by (simp add: part_def)
  have dsrt: "distinct ?srt" using dpart by (simp add: sort_newest_first_def)
  have ssrt: "set ?srt = set part" by (simp add: sort_newest_first_def)
  have stale_sub: "set stale \<subseteq> set xs"
    using set_drop_subset[of n ?srt] ssrt by (auto simp add: stale_def part_def)
  have stale_P: "\<And>x. x \<in> set stale \<Longrightarrow> P x"
    using set_drop_subset[of n ?srt] ssrt by (auto simp add: stale_def part_def)
  have xs': "xs' = filter (\<lambda>x. x \<notin> set stale) xs"
    unfolding xs'_def by (rule delete_by_id[OF ids stale_sub])
  have "distinct (take n ?srt @ drop n ?srt)" using dsrt by simp
  then have disj: "set (take n ?srt) \<inter> set stale = {}"
    unfolding stale_def by (simp only: distinct_append) 
  have union: "set (take n ?srt) \<union> set stale = set part"
    unfolding stale_def using ssrt set_append[of "take n ?srt" "drop n ?srt"] by simp
  have "set (filter P xs') = set part - set stale"
    by (auto simp add: xs' part_def)
  also have "\<dots> = set (take n ?srt)" using disj union by auto
  finally show s: "set (filter P xs') = set (take n ?srt)" .
  have "distinct (filter P xs')" using dx by (simp add: xs')
  then have "length (filter P xs') = card (set (filter P xs'))"
    by (rule distinct_card[symmetric])
  also have "\<dots> = card (set (take n ?srt))" by (simp only: s)
  also have "\<dots> = length (take n ?srt)"
    using dsrt by (intro distinct_card) (rule distinct_take)
  also have "\<dots> = min n (length part)" by (simp add: sort_newest_first_def min.commute)
  finally show "length (filter P xs') = min n (length part)" .
  show "filter (\<lambda>x. \<not> P x) xs' = filter (\<lambda>x. \<not> P x) xs"
    using stale_P by (auto simp add: xs' intro: filter_cong)
  show "distinct (map doc_id xs')"
    using ids by (simp add: xs' distinct_map_filter)
qed

lemma new_docs_ids:
  "map doc_id (new_docs cid scope clock n msgs) = [n..<n + length (filter valid_message msgs)]"
proof -
  let ?ys = "enumerate 0 (filter valid_message msgs)"
  have "map doc_id (new_docs cid scope clock n msgs) = map (\<lambda>x. n + fst x) ?ys"
    by (simp add: new_docs_def comp_def case_prod_unfold)
  also have "\<dots> = map (\<lambda>k. n + k) (map fst ?ys)"
    by (simp only: map_map comp_def)
  also have "map fst ?ys = [0..<length (filter valid_message msgs)]"
    by simp
  also have "map (\<lambda>k. n + k) [0..<length (filter valid_message msgs)]
      = [n..<n + length (filter valid_message msgs)]"
    using map_add_upt[of n "length (filter valid_message msgs)"] by (simp add: add.commute)
  finally show ?thesis .
qed

lemma new_docs_in_partition:
  "x \<in> set (new_docs cid scope clock n msgs) \<Longrightarrow> in_partition cid scope x"
  by (auto simp add: new_docs_def in_partition_def)

lemma new_docs_empty:
  "(new_docs cid scope clock n msgs = []) = (filter valid_message msgs = [])"
  by (simp add: new_docs_def enumerate_eq_zip)

lemma wf_store_insert:
  assumes "wf_store s"
  shows "distinct (map doc_id (docs s @ new_docs cid scope clock (next_id s) msgs))"
    and "list_all (\<lambda>x. doc_id x < next_id s + length (new_docs cid scope clock (next_id s) msgs))
           (docs s @ new_docs cid scope clock (next_id s) msgs)"
proof -
  let ?new = "new_docs cid scope clock (next_id s) msgs"
  have old: "\<forall>x\<in>set (docs s). doc_id x < next_id s"
    using assms by (simp add: wf_store_def list_all_iff)
  have ids: "set (map doc_id ?new) = {next_id s..<next_id s + length (filter valid_message msgs)}"
    by (simp only: new_docs_ids set_upt)
  have len: "length ?new = length (filter valid_message msgs)"
    by (simp add: new_docs_def)
  have "set (map doc_id (docs s)) \<inter> set (map doc_id ?new) = {}"
    using old unfolding ids by auto
  moreover have "distinct (map doc_id ?new)" by (simp only: new_docs_ids distinct_upt)
  ultimately show "distinct (map doc_id (docs s @ ?new))"
    using assms by (simp add: wf_store_def)
  have "\<forall>x\<in>set ?new. doc_id x < next_id s + length ?new"
    using ids len by auto
  then show "list_all (\<lambda>x. doc_id x < next_id s + length ?new) (docs s @ ?new)"
    using old by (auto simp add: list_all_iff)
qed

lemma trim_history_healthy:
  assumes "aggregate_error d = None" "delete_error d = None"
  shows "trim_history d cid scope (s, out) =
     (s\<lparr>docs := filter (\<lambda>x. doc_id x \<notin> set (map doc_id
                 (drop maxEntries (sort_newest_first (filter (in_partition cid scope) (docs s))))))
               (docs s)\<rparr>, out)"
  using assms by (simp add: trim_history_def Let_def)

section \<open>A long conversation, turn by turn\<close>

lemma nat_decimal_nonempty: "nat_decimal n \<noteq> []"
  by (subst nat_decimal.simps) simp

lemma valid_turn: "valid_message (turn n)"
  by (simp add: valid_message_def turn_def nat_decimal_nonempty)

lemma new_docs_turn:
  "new_docs ''chat'' (Str ''scope'') (\<lambda>k. n) n [turn n] = [turn_doc n]"
  by (simp add: new_docs_def valid_turn) (simp add: turn_def turn_doc_def)

lemma turn_docs_in_partition:
  "filter (in_partition ''chat'' (Str ''scope'')) (map turn_doc ks) = map turn_doc ks"
  by (induction ks) (simp_all add: in_partition_def turn_doc_def)

lemma turn_docs_newest_first:
  "sort_newest_first (map turn_doc [a..<b]) = rev (map turn_doc [a..<b])"
proof -
  have "sorted_wrt (\<lambda>x y. x < y) [a..<b]" by simp
  then have "sorted_wrt (\<lambda>x y. - int (doc_createdAt (turn_doc y)) < - int (doc_createdAt (turn_doc x)))
               [a..<b]"
    by (rule sorted_wrt_mono_rel[rotated]) (simp add: turn_doc_def)
  then have "sorted_wrt (\<lambda>x y. - int (doc_createdAt y) < - int (doc_createdAt x))
               (map turn_doc [a..<b])"
    by (simp add: sorted_wrt_map)
  then show ?thesis
    unfolding sort_newest_first_def by (rule sort_key_strictly_decreasing)
qed

lemma drop_oldest_turn:
  assumes "a < b"
  shows "filter (\<lambda>x. doc_id x \<noteq> a) (map turn_doc [a..<b]) = map turn_doc [Suc a..<b]"
proof -
  have "filter (\<lambda>k. k \<noteq> a) [Suc a..<b] = [Suc a..<b]"
    by (rule filter_True) simp
  then have "filter (\<lambda>k. k \<noteq> a) [a..<b] = [Suc a..<b]"
    using assms by (simp add: upt_conv_Cons)
  then show ?thesis
    by (simp add: filter_map comp_def turn_doc_def)
qed

lemma trim_turn_docs:
  "trim_history healthy ''chat'' (Str ''scope'')
     (\<lparr>docs = map turn_doc [n - 80..<Suc n], next_id = Suc n, finds = 0\<rparr>, [])
   = (\<lparr>docs = map turn_doc [Suc n - 80..<Suc n], next_id = Suc n, finds = 0\<rparr>, [])"
proof -
  let ?xs = "map turn_doc [n - 80..<Suc n]"
  let ?stale = "drop maxEntries (sort_newest_first (filter (in_partition ''chat'' (Str ''scope'')) ?xs))"
  have srt: "?stale = drop 80 (rev ?xs)"
    by (simp only: turn_docs_in_partition turn_docs_newest_first maxEntries_def)
  have kept: "filter (\<lambda>x. doc_id x \<notin> set (map doc_id ?stale)) ?xs
      = map turn_doc [Suc n - 80..<Suc n]"
  proof (cases "n < 80")
    case True
    then have "?stale = []" unfolding srt by simp
    moreover have "Suc n - 80 = n - 80" using True by simp
    ultimately show ?thesis by (simp del: upt_Suc)
  next
    case False
    then have n: "80 \<le> n" by simp
    have len: "length ?xs = 81" using n by simp
    have "drop 80 (rev ?xs) = rev (take 1 ?xs)"
      by (simp only: drop_rev len) simp
    also have "take 1 ?xs = [turn_doc (n - 80)]"
      using n by (simp add: upt_conv_Cons take_map del: upt_Suc)
    finally have "?stale = [turn_doc (n - 80)]" unfolding srt by simp
    then have "set (map doc_id ?stale) = {n - 80}" by (simp add: turn_doc_def)
    then have "filter (\<lambda>x. doc_id x \<notin> set (map doc_id ?stale)) ?xs
        = filter (\<lambda>x. doc_id x \<noteq> n - 80) ?xs"
      by simp
    also have "\<dots> = map turn_doc [Suc (n - 80)..<Suc n]"
      by (rule drop_oldest_turn) (use n in simp)
    also have "Suc (n - 80) = Suc n - 80" using n by simp
    finally show ?thesis .
  qed
  have "trim_history healthy ''chat'' (Str ''scope'')
          (\<lparr>docs = ?xs, next_id = Suc n, finds = 0\<rparr>, [])
      = (\<lparr>docs = ?xs, next_id = Suc n, finds = 0\<rparr>
           \<lparr>docs := filter (\<lambda>x. doc_id x \<notin> set (map doc_id ?stale)) ?xs\<rparr>, [])"
    using trim_history_healthy[of healthy "''chat''" "Str ''scope''"
            "\<lparr>docs = ?xs, next_id = Suc n, finds = 0\<rparr>" "[]"]
    by (simp add: healthy_def del: upt_Suc)
  then show ?thesis
    by (simp only: kept) simp
qed

lemma appends_docs:
  "appends n = (\<lparr>docs = map turn_doc [n - 80..<n], next_id = n, finds = 0\<rparr>, [])"
proof (induction n)
  case 0
  then show ?case by (simp add: empty_store_def)
next
  case (Suc n)
  let ?s = "\<lparr>docs = map turn_doc [n - 80..<n], next_id = n, finds = 0\<rparr>"
  have up: "map turn_doc [n - 80..<n] @ [turn_doc n] = map turn_doc [n - 80..<Suc n]"
    by simp
  have "appendMessages healthy (\<lambda>k. n) (Str ''chat'') (Str ''scope'') (Arr [turn n]) (?s, [])
      = (None, (\<lparr>docs = map turn_doc [n - 80..<Suc n], next_id = Suc n, finds = 0\<rparr>, []),
         Some (''chat'', Str ''scope''))"
    by (simp add: appendMessages_def healthy_def insertMany_def new_docs_turn up del: upt_Suc)
  then have "appendMessages_trimmed healthy (\<lambda>k. n) (Str ''chat'') (Str ''scope'') (Arr [turn n]) (?s, [])
      = (None, \<lparr>docs = map turn_doc [Suc n - 80..<Suc n], next_id = Suc n, finds = 0\<rparr>, [])"
    by (simp add: appendMessages_trimmed_def trim_turn_docs del: upt_Suc)
  then show ?case by (simp add: Suc.IH del: upt_Suc)
qed

section \<open>Sequential fallback\<close>

text \<open>
  C1. For every roster, when \<^verbatim>\<open>firstToFinish\<close> is false or the roster has exactly one entry,
  \<^verbatim>\<open>ask\<close> tries the models strictly in roster order and stops at the first model whose attempt
  succeeds. If the attempts at positions before \<open>k\<close> fail and the attempt at \<open>k\<close> succeeds,
  the call returns that model's text, \<^verbatim>\<open>lastUsedModel\<close> is that model, the calls made are
  exactly those for positions \<open>0..k\<close> in order (none for a later model), and the log gains
  exactly one failure line for each position before \<open>k\<close>, in order.
\<close>

theorem sequential_stops_at_first_success:
  assumes "\<not> truthy (firstToFinish a) \<or> length (models a) = 1"
    and "k < length (models a)"
    and "\<forall>j<k. run_attempt a (models a ! j) (net j) = Some (Failure (errs j))"
    and "run_attempt a (models a ! k) (net k) = Some (Success text)"
  shows "Ai_ask a req net order w =
     (Returns text, a\<lparr>lastUsedModel := models a ! k\<rparr>,
      w\<lparr>console := console w @ map (\<lambda>j. failure_log (models a ! j) (errs j)) [0..<k],
        invoked := invoked w @ map (\<lambda>m. (m, buildMessages req)) (take (Suc k) (models a))\<rparr>)"
proof -
  have nonempty: "models a \<noteq> []" using assms(2) by auto
  have "ask_sequential a (buildMessages req) net 0 (models a) None w =
     (Returns text, a\<lparr>lastUsedModel := models a ! k\<rparr>,
      w\<lparr>console := console w @ map (\<lambda>j. failure_log (models a ! j) (errs (0 + j))) [0..<k],
        invoked := invoked w @ map (\<lambda>m. (m, buildMessages req)) (take (Suc k) (models a))\<rparr>)"
    by (rule ask_sequential_first_success) (use assms in simp_all)
  then show ?thesis
    using assms(1) nonempty by (simp add: Ai_ask_def)
qed

theorem sequential_stops_at_first_success_witness:
  "Ai_ask (roster_ABC (Bool False)) hello net_fail_fail_hi [] quiet =
     (Returns ''hi'', roster_ABC (Bool False)\<lparr>lastUsedModel := Str ''C''\<rparr>,
      \<lparr> console = [(''[AI] A failed:'', Text ''x''),
                   (''[AI] B failed:'', Text ''Model B timed out after 20000ms'')],
        invoked = [(Str ''A'', [HumanMessage (Str ''hello'')]),
                   (Str ''B'', [HumanMessage (Str ''hello'')]),
                   (Str ''C'', [HumanMessage (Str ''hello'')])],
        moderations = [], transcriptions = [] \<rparr>)"
proof -
  let ?a = "roster_ABC (Bool False)"
  have mode: "\<not> truthy (firstToFinish ?a) \<or> length (models ?a) = 1"
    by (simp add: roster_ABC_def)
  have k: "2 < length (models ?a)" by (simp add: roster_ABC_def)
  have dec: "int_decimal 20000 = ''20000''"
    by (simp add: int_decimal_def nat_decimal.simps digit_char_def)
  have fails: "\<forall>j<2. run_attempt ?a (models ?a ! j) (net_fail_fail_hi j) = Some (Failure (errs_x_timeout j))"
    by (simp add: numeral_2_eq_2 less_Suc_eq roster_ABC_def net_fail_fail_hi_def errs_x_timeout_def
          run_attempt_def await_response_def race_timeout_def timeout_error_def dec)
  have wins: "run_attempt ?a (models ?a ! 2) (net_fail_fail_hi 2) = Some (Success ''hi'')"
    by (simp add: roster_ABC_def net_fail_fail_hi_def run_attempt_def await_response_def race_timeout_def
          extractText_def reply_def js_trim_def js_whitespace_def)
  show ?thesis
    using sequential_stops_at_first_success[OF mode k fails wins, of hello "[]" quiet]
    by (simp add: roster_ABC_def quiet_def hello_def buildMessages_def failure_log_def
          errs_x_timeout_def numeral_2_eq_2)
qed

section \<open>Racing settles once\<close>

text \<open>
  C2. In racing mode (\<^verbatim>\<open>firstToFinish\<close> truthy, more than one model) the result settles at
  most once. Let the attempts finish in the order \<open>fs @ i # rest\<close>, where no attempt of \<open>fs\<close>
  succeeds and the attempt at roster position \<open>i\<close> succeeds with \<open>text\<close>. Then the call
  resolves with \<open>text\<close> and the winner is the model at \<open>i\<close>, whatever the attempts of \<open>rest\<close>
  do. At every moment (after any number \<open>n\<close> of finished attempts) \<^verbatim>\<open>resolve\<close> and
  \<^verbatim>\<open>reject\<close> together have been called at most once; the promise is pending up to the first
  success and from then on holds \<open>text\<close> and the same winner, with one call of \<^verbatim>\<open>resolve\<close>
  and none of \<^verbatim>\<open>reject\<close>. For every order of completion whatsoever, \<^verbatim>\<open>resolve\<close> and
  \<^verbatim>\<open>reject\<close> together are called at most once.
\<close>

theorem racing_settles_once:
  assumes "truthy (firstToFinish a)" and "1 < length (models a)"
    and "distinct (fs @ i # rest)" and "set (fs @ i # rest) \<subseteq> {..<length (models a)}"
    and "\<forall>j\<in>set fs. \<forall>t. run_attempt a (models a ! j) (net j) \<noteq> Some (Success t)"
    and "run_attempt a (models a ! i) (net i) = Some (Success text)"
  shows "fst (Ai_ask a req net (fs @ i # rest) w) = Returns text
     \<and> lastUsedModel (fst (snd (Ai_ask a req net (fs @ i # rest) w))) = models a ! i
     \<and> (\<forall>n. resolve_calls (ask_racing a (buildMessages req) net (take n (fs @ i # rest)) w)
               + reject_calls (ask_racing a (buildMessages req) net (take n (fs @ i # rest)) w) \<le> 1
            \<and> (if n \<le> length fs
                then promise (ask_racing a (buildMessages req) net (take n (fs @ i # rest)) w) = Pending
                else promise (ask_racing a (buildMessages req) net (take n (fs @ i # rest)) w)
                       = Returns text
                   \<and> lastUsedModel (self (ask_racing a (buildMessages req) net
                                             (take n (fs @ i # rest)) w)) = models a ! i
                   \<and> resolve_calls (ask_racing a (buildMessages req) net
                                       (take n (fs @ i # rest)) w) = 1
                   \<and> reject_calls (ask_racing a (buildMessages req) net
                                      (take n (fs @ i # rest)) w) = 0))
     \<and> (\<forall>sched. resolve_calls (ask_racing a (buildMessages req) net sched w)
                   + reject_calls (ask_racing a (buildMessages req) net sched w) \<le> 1)"
proof -
  let ?p = "buildMessages req"
  let ?r0 = "launch a ?p w"
  have r0: "\<not> settled ?r0" "remaining ?r0 = int (length (models a))" "self ?r0 = a"
    "promise ?r0 = Pending" "resolve_calls ?r0 = 0" "reject_calls ?r0 = 0"
    by (simp_all add: launch_def)
  have "distinct (fs @ [i])" "set (fs @ [i]) \<subseteq> {..<length (models a)}"
    using assms(3,4) by auto
  then have "length (fs @ [i]) \<le> length (models a)"
    by (rule distinct_positions_length)
  then have short: "length fs < length (models a)" by simp
  have i: "i < length (models a)" using assms(4) by simp
  have before: "\<not> settled (foldl (complete net) ?r0 gs) \<and> promise (foldl (complete net) ?r0 gs) = Pending
       \<and> self (foldl (complete net) ?r0 gs) = a
       \<and> resolve_calls (foldl (complete net) ?r0 gs) = 0
       \<and> reject_calls (foldl (complete net) ?r0 gs) = 0"
    if "set gs \<subseteq> set fs" "length gs \<le> length fs" for gs
  proof -
    have "int (length gs) < remaining ?r0" using that(2) short r0(2) by simp
    moreover have "\<And>j t. j \<in> set gs \<Longrightarrow>
        run_attempt (self ?r0) (models (self ?r0) ! j) (net j) \<noteq> Some (Success t)"
      using that(1) assms(5) r0(3) by auto
    ultimately show ?thesis
      using foldl_complete_no_success[of ?r0 gs net] r0 by simp
  qed
  let ?r1 = "foldl (complete net) ?r0 fs"
  let ?r2 = "complete net ?r1 i"
  have r1: "\<not> settled ?r1" "promise ?r1 = Pending" "self ?r1 = a"
    "resolve_calls ?r1 = 0" "reject_calls ?r1 = 0"
    using before[of fs] by simp_all
  have r2: "settled ?r2" "promise ?r2 = Returns text"
    "self ?r2 = a\<lparr>lastUsedModel := models a ! i\<rparr>"
    "resolve_calls ?r2 = 1" "reject_calls ?r2 = 0"
    using complete_first_success[of ?r1 i net "text"] r1 i assms(6) by simp_all
  have after: "promise (foldl (complete net) ?r2 gs) = Returns text
       \<and> self (foldl (complete net) ?r2 gs) = a\<lparr>lastUsedModel := models a ! i\<rparr>
       \<and> resolve_calls (foldl (complete net) ?r2 gs) = 1
       \<and> reject_calls (foldl (complete net) ?r2 gs) = 0" for gs
    using foldl_complete_settled[OF r2(1), of net gs] r2 by simp
  have whole: "ask_racing a ?p net (fs @ i # rest) w = foldl (complete net) ?r2 rest"
    by (simp add: ask_racing_def)
  have racing: "\<not> (\<not> truthy (firstToFinish a) \<or> length (models a) = 1)" "models a \<noteq> []"
    using assms(1,2) by auto
  have result: "Ai_ask a req net (fs @ i # rest) w =
      (promise (foldl (complete net) ?r2 rest), self (foldl (complete net) ?r2 rest),
       env (foldl (complete net) ?r2 rest))"
    using racing by (simp add: Ai_ask_def Let_def whole)
  have moments: "resolve_calls (ask_racing a ?p net (take n (fs @ i # rest)) w)
               + reject_calls (ask_racing a ?p net (take n (fs @ i # rest)) w) \<le> 1
            \<and> (if n \<le> length fs
                then promise (ask_racing a ?p net (take n (fs @ i # rest)) w) = Pending
                else promise (ask_racing a ?p net (take n (fs @ i # rest)) w) = Returns text
                   \<and> lastUsedModel (self (ask_racing a ?p net (take n (fs @ i # rest)) w))
                       = models a ! i
                   \<and> resolve_calls (ask_racing a ?p net (take n (fs @ i # rest)) w) = 1
                   \<and> reject_calls (ask_racing a ?p net (take n (fs @ i # rest)) w) = 0)" for n
  proof (cases "n \<le> length fs")
    case True
    then have "take n (fs @ i # rest) = take n fs" by simp
    moreover have "set (take n fs) \<subseteq> set fs" by (rule set_take_subset)
    ultimately show ?thesis
      using before[of "take n fs"] True by (simp add: ask_racing_def)
  next
    case False
    then obtain m where m: "n = Suc (length fs + m)"
      by (metis add_Suc_right less_iff_Suc_add not_le_imp_less)
    have "take n (fs @ i # rest) = fs @ i # take m rest"
      by (simp add: m)
    then have "ask_racing a ?p net (take n (fs @ i # rest)) w = foldl (complete net) ?r2 (take m rest)"
      by (simp add: ask_racing_def)
    then show ?thesis
      using after[of "take m rest"] False by simp
  qed
  have c1: "fst (Ai_ask a req net (fs @ i # rest) w) = Returns text"
    using result after[of rest] by simp
  have c2: "lastUsedModel (fst (snd (Ai_ask a req net (fs @ i # rest) w))) = models a ! i"
    using result after[of rest] by simp
  from moments have c3: "\<forall>n. resolve_calls (ask_racing a ?p net (take n (fs @ i # rest)) w)
               + reject_calls (ask_racing a ?p net (take n (fs @ i # rest)) w) \<le> 1
            \<and> (if n \<le> length fs
                then promise (ask_racing a ?p net (take n (fs @ i # rest)) w) = Pending
                else promise (ask_racing a ?p net (take n (fs @ i # rest)) w) = Returns text
                   \<and> lastUsedModel (self (ask_racing a ?p net (take n (fs @ i # rest)) w))
                       = models a ! i
                   \<and> resolve_calls (ask_racing a ?p net (take n (fs @ i # rest)) w) = 1
                   \<and> reject_calls (ask_racing a ?p net (take n (fs @ i # rest)) w) = 0)"
    by (rule allI)
  have c4: "\<forall>sched. resolve_calls (ask_racing a ?p net sched w)
                   + reject_calls (ask_racing a ?p net sched w) \<le> 1"
    by (intro allI) (rule ask_racing_settles_once)
  show ?thesis
    by (rule conjI[OF c1 conjI[OF c2 conjI[OF c3 c4]]])
qed

theorem racing_settles_once_witness:
  "fst (Ai_ask (roster_ABC (Bool True)) hello net_a_b_down [2, 1, 0] quiet) = Returns ''b''
   \<and> lastUsedModel (fst (snd (Ai_ask (roster_ABC (Bool True)) hello net_a_b_down [2, 1, 0] quiet)))
       = Str ''B''
   \<and> promise (ask_racing (roster_ABC (Bool True)) (buildMessages hello) net_a_b_down [2] quiet)
       = Pending
   \<and> promise (ask_racing (roster_ABC (Bool True)) (buildMessages hello) net_a_b_down [2, 1] quiet)
       = Returns ''b''
   \<and> promise (ask_racing (roster_ABC (Bool True)) (buildMessages hello) net_a_b_down [2, 1, 0] quiet)
       = Returns ''b''
   \<and> resolve_calls (ask_racing (roster_ABC (Bool True)) (buildMessages hello) net_a_b_down
                      [2, 1, 0] quiet) = 1"
proof -
  let ?a = "roster_ABC (Bool True)"
  have mode: "truthy (firstToFinish ?a)" "1 < length (models ?a)"
    by (simp_all add: roster_ABC_def)
  have sched: "distinct ([2] @ 1 # [0::nat])" "set ([2] @ 1 # [0::nat]) \<subseteq> {..<length (models ?a)}"
    by (simp_all add: roster_ABC_def)
  have before: "\<forall>j\<in>set [2]. \<forall>t. run_attempt ?a (models ?a ! j) (net_a_b_down j) \<noteq> Some (Success t)"
    by (simp add: roster_ABC_def net_a_b_down_def run_attempt_def await_response_def race_timeout_def)
  have wins: "run_attempt ?a (models ?a ! 1) (net_a_b_down 1) = Some (Success ''b'')"
    by (simp add: roster_ABC_def net_a_b_down_def run_attempt_def await_response_def race_timeout_def
          extractText_def reply_def js_trim_def js_whitespace_def)
  note main = racing_settles_once[OF mode sched before wins, of hello quiet]
  note moment = main[THEN conjunct2, THEN conjunct2, THEN conjunct1, THEN spec]
  have m: "models ?a ! Suc 0 = Str ''B''" by (simp add: roster_ABC_def)
  have "fst (Ai_ask ?a hello net_a_b_down [2, 1, 0] quiet) = Returns ''b''"
    using main by simp
  moreover have "lastUsedModel (fst (snd (Ai_ask ?a hello net_a_b_down [2, 1, 0] quiet))) = Str ''B''"
    using main by (simp add: m)
  moreover have "promise (ask_racing ?a (buildMessages hello) net_a_b_down [2] quiet) = Pending"
    using moment[of 1] by simp
  moreover have "promise (ask_racing ?a (buildMessages hello) net_a_b_down [2, 1] quiet) = Returns ''b''"
    using moment[of 2] by simp
  moreover have "promise (ask_racing ?a (buildMessages hello) net_a_b_down [2, 1, 0] quiet) = Returns ''b''
      \<and> resolve_calls (ask_racing ?a (buildMessages hello) net_a_b_down [2, 1, 0] quiet) = 1"
    using moment[of 3] by simp
  ultimately show ?thesis by simp
qed

section \<open>Exhaustion reports the last failure\<close>

text \<open>
  C3. For every non-empty roster in which every attempt fails, \<^verbatim>\<open>ask\<close> throws the error of
  the last attempt to fail: in sequential mode the failure of the last roster entry, in racing
  mode (where every attempt finishes once, in the order \<open>order\<close>) the failure of the attempt
  that finishes last. The first recorded failure is thrown only when it is also the last.
\<close>

theorem exhaustion_throws_last_failure:
  assumes "models a \<noteq> []"
    and "\<forall>j<length (models a). run_attempt a (models a ! j) (net j) = Some (Failure (errs j))"
    and "truthy (firstToFinish a) \<and> length (models a) \<noteq> 1
           \<longrightarrow> distinct order \<and> set order = {..<length (models a)}"
  shows "fst (Ai_ask a req net order w) =
     Throws (errs (if \<not> truthy (firstToFinish a) \<or> length (models a) = 1
                   then length (models a) - 1 else last order))"
proof (cases "\<not> truthy (firstToFinish a) \<or> length (models a) = 1")
  case True
  have "ask_sequential a (buildMessages req) net 0 (models a) None w =
     (Throws (if models a = [] then (case None of Some e \<Rightarrow> e | None \<Rightarrow> Error ''All AI models failed'')
              else errs (0 + (length (models a) - 1))),
      a,
      w\<lparr>console := console w @ map (\<lambda>j. failure_log (models a ! j) (errs (0 + j))) [0..<length (models a)],
        invoked := invoked w @ map (\<lambda>m. (m, buildMessages req)) (models a)\<rparr>)"
    by (rule ask_sequential_all_fail) (use assms(2) in simp)
  then show ?thesis
    using True assms(1) by (simp add: Ai_ask_def)
next
  case False
  let ?n = "length (models a)"
  let ?r0 = "launch a (buildMessages req) w"
  have sched: "distinct order" "set order = {..<?n}"
    using False assms(3) by auto
  then have len: "length order = ?n"
    by (metis card_lessThan distinct_card)
  have "order \<noteq> []" using len assms(1) by auto
  then have split: "order = butlast order @ [last order]" by simp
  let ?fs = "butlast order"
  let ?l = "last order"
  have r0: "\<not> settled ?r0" "remaining ?r0 = int ?n" "self ?r0 = a" "promise ?r0 = Pending"
    by (simp_all add: launch_def)
  have l: "?l < ?n" using sched(2) \<open>order \<noteq> []\<close> last_in_set by blast
  have "int (length ?fs) < remaining ?r0" using len assms(1) r0(2) by simp
  moreover have "\<forall>j\<in>set ?fs. j < length (models (self ?r0)) \<and>
        run_attempt (self ?r0) (models (self ?r0) ! j) (net j) = Some (Failure (errs j))"
    using assms(2) sched(2) r0(3) by (auto dest: in_set_butlastD)
  ultimately have r1: "foldl (complete net) ?r0 ?fs =
     ?r0\<lparr>remaining := remaining ?r0 - int (length ?fs),
       lastError := (if ?fs = [] then lastError ?r0 else Some (errs (last ?fs))),
       env := (env ?r0)\<lparr>console := console (env ?r0) @
                 map (\<lambda>j. failure_log (models (self ?r0) ! j) (errs j)) ?fs\<rparr>\<rparr>"
    using foldl_complete_failures[of ?r0 ?fs net errs] r0(1) by simp
  let ?r1 = "foldl (complete net) ?r0 ?fs"
  have lenfs: "int (length ?fs) = int ?n - 1"
    using len assms(1) by (cases "models a") simp_all
  have r1': "\<not> settled ?r1" "remaining ?r1 = 1" "self ?r1 = a" "promise ?r1 = Pending"
    using r0 lenfs by (simp_all add: r1)
  have "run_attempt (self ?r1) (models (self ?r1) ! ?l) (net ?l) = Some (Failure (errs ?l))"
    using assms(2) l r1'(3) by simp
  then have "complete net ?r1 ?l =
     finally_block (?r1\<lparr>lastError := Some (errs ?l),
                        env := log_failure (models (self ?r1) ! ?l) (errs ?l) (env ?r1)\<rparr>)"
    using complete_failure[of ?l ?r1 net "errs ?l"] l r1'(3) by simp
  then have "promise (complete net ?r1 ?l) = Throws (errs ?l)"
    using r1' by (simp add: finally_block_def reject_def Let_def)
  moreover have "ask_racing a (buildMessages req) net order w = complete net ?r1 ?l"
    by (subst split) (simp add: ask_racing_def)
  ultimately show ?thesis
    using False assms(1) by (simp add: Ai_ask_def Let_def)
qed

theorem exhaustion_throws_last_failure_witness:
  "fst (Ai_ask (roster_AB (Bool False)) hello net_fail_fail_hi [] quiet)
      = Throws (Error ''Model B timed out after 20000ms'')
   \<and> fst (Ai_ask (roster_AB (Bool True)) hello net_fail_fail_hi [0, 1] quiet)
      = Throws (Error ''Model B timed out after 20000ms'')
   \<and> fst (Ai_ask (roster_AB (Bool True)) hello net_fail_fail_hi [1, 0] quiet)
      = Throws (Error ''x'')"
proof -
  have dec: "int_decimal 20000 = ''20000''"
    by (simp add: int_decimal_def nat_decimal.simps digit_char_def)
  have fails: "\<forall>j<length (models (roster_AB f)).
      run_attempt (roster_AB f) (models (roster_AB f) ! j) (net_fail_fail_hi j)
        = Some (Failure (errs_x_timeout j))" for f
    by (simp add: numeral_2_eq_2 less_Suc_eq roster_AB_def net_fail_fail_hi_def errs_x_timeout_def
          run_attempt_def await_response_def race_timeout_def timeout_error_def dec)
  have ne: "models (roster_AB f) \<noteq> []" for f by (simp add: roster_AB_def)
  have s: "truthy (firstToFinish (roster_AB (Bool False))) \<and> length (models (roster_AB (Bool False))) \<noteq> 1
           \<longrightarrow> distinct [] \<and> set [] = {..<length (models (roster_AB (Bool False)))}"
    by (simp add: roster_AB_def)
  have r01: "truthy (firstToFinish (roster_AB (Bool True))) \<and> length (models (roster_AB (Bool True))) \<noteq> 1
           \<longrightarrow> distinct [0, 1::nat] \<and> set [0, 1::nat] = {..<length (models (roster_AB (Bool True)))}"
    by (auto simp add: roster_AB_def)
  have r10: "truthy (firstToFinish (roster_AB (Bool True))) \<and> length (models (roster_AB (Bool True))) \<noteq> 1
           \<longrightarrow> distinct [1, 0::nat] \<and> set [1, 0::nat] = {..<length (models (roster_AB (Bool True)))}"
    by (auto simp add: roster_AB_def)
  show ?thesis
    using exhaustion_throws_last_failure[OF ne fails s, of hello quiet]
          exhaustion_throws_last_failure[OF ne fails r01, of hello quiet]
          exhaustion_throws_last_failure[OF ne fails r10, of hello quiet]
    by (simp add: roster_AB_def errs_x_timeout_def)
qed

section \<open>An empty answer is a failure\<close>

text \<open>
  C4. An attempt whose network call succeeds (the response arrives, before the timer when there
  is one) but whose extracted text is empty or only white space is a failure of that attempt,
  with the error "Empty response from <model>", and from there on it is treated exactly as a
  provider error with that message: the whole call behaves as if the provider had rejected
  with it. In particular the attempt is never the winner; in sequential mode the loop logs it
  and goes on to the next candidate, in racing mode its continuation only records the error
  as the last one, logs it and runs the \<^verbatim>\<open>finally\<close> block.
\<close>

theorem empty_text_counts_as_failure:
  assumes "js_trim (extractText response) = []"
    and "i < length (models a)"
    and "requestTimeoutMs a \<le> 0 \<or> int t < requestTimeoutMs a"
  shows "run_attempt a (models a ! i) (Settles t (Resolves response))
           = Some (Failure (empty_response (models a ! i)))
     \<and> run_attempt a (models a ! i) (Settles t (Rejects (empty_response (models a ! i))))
           = Some (Failure (empty_response (models a ! i)))
     \<and> Ai_ask a req (net(i := Settles t (Resolves response))) order w
           = Ai_ask a req (net(i := Settles t (Rejects (empty_response (models a ! i))))) order w
     \<and> ask_sequential a p (net(k := Settles t (Resolves response))) k (models a ! i # rest) le w
           = ask_sequential a p (net(k := Settles t (Resolves response))) (Suc k) rest
               (Some (empty_response (models a ! i)))
               (log_failure (models a ! i) (empty_response (models a ! i))
                  (record_invoke (models a ! i) p w))
     \<and> (self r = a \<longrightarrow>
          complete (net(i := Settles t (Resolves response))) r i
           = finally_block (r\<lparr>lastError := Some (empty_response (models a ! i)),
                              env := log_failure (models a ! i) (empty_response (models a ! i))
                                       (env r)\<rparr>))"
proof -
  let ?m = "models a ! i"
  let ?net = "net(i := Settles t (Resolves response))"
  let ?net' = "net(i := Settles t (Rejects (empty_response ?m)))"
  have fail: "run_attempt a ?m (Settles t (Resolves response)) = Some (Failure (empty_response ?m))"
    using assms(1,3) by (auto simp add: run_attempt_def await_response_def race_timeout_def)
  have fail': "run_attempt a ?m (Settles t (Rejects (empty_response ?m)))
      = Some (Failure (empty_response ?m))"
    using assms(3) by (auto simp add: run_attempt_def await_response_def race_timeout_def)
  have same: "run_attempt a (models a ! j) (?net j) = run_attempt a (models a ! j) (?net' j)" for j
    by (simp add: fail fail')
  have seq: "ask_sequential a (buildMessages req) ?net 0 (models a) None w
      = ask_sequential a (buildMessages req) ?net' 0 (models a) None w"
    by (rule ask_sequential_cong) (simp add: fail fail')
  have "foldl (complete ?net) (launch a (buildMessages req) w) order
      = foldl (complete ?net') (launch a (buildMessages req) w) order"
    by (rule foldl_complete_cong) (simp add: launch_def fail fail')
  then have race: "ask_racing a (buildMessages req) ?net order w
      = ask_racing a (buildMessages req) ?net' order w"
    by (simp add: ask_racing_def)
  have whole: "Ai_ask a req ?net order w = Ai_ask a req ?net' order w"
    unfolding Ai_ask_def Let_def seq race by (rule refl)
  have step: "ask_sequential a p (net(k := Settles t (Resolves response))) k (?m # rest) le w
           = ask_sequential a p (net(k := Settles t (Resolves response))) (Suc k) rest
               (Some (empty_response ?m))
               (log_failure ?m (empty_response ?m) (record_invoke ?m p w))"
    using fail by simp
  have cont: "self r = a \<longrightarrow>
          complete ?net r i
           = finally_block (r\<lparr>lastError := Some (empty_response ?m),
                              env := log_failure ?m (empty_response ?m) (env r)\<rparr>)"
    using fail assms(2) by (simp add: complete_def Let_def)
  show ?thesis
    by (rule conjI[OF fail conjI[OF fail' conjI[OF whole conjI[OF step cont]]]])
qed

theorem empty_text_counts_as_failure_witness:
  "run_attempt (roster_ABC (Bool False)) (Str ''A'') (Settles 5 (Resolves (reply '' '')))
      = Some (Failure (Error ''Empty response from A''))
   \<and> Ai_ask (roster_ABC (Bool False)) hello
        (net_a_b_down(0 := Settles 5 (Resolves (reply '' '')))) [] quiet
      = Ai_ask (roster_ABC (Bool False)) hello
        (net_a_b_down(0 := Settles 5 (Rejects (Error ''Empty response from A'')))) [] quiet"
proof -
  let ?a = "roster_ABC (Bool False)"
  have blank: "js_trim (extractText (reply '' '')) = []"
    by (simp add: extractText_def reply_def js_trim_def js_whitespace_def)
  have i: "0 < length (models ?a)" by (simp add: roster_ABC_def)
  have t: "requestTimeoutMs ?a \<le> 0 \<or> int 5 < requestTimeoutMs ?a" by (simp add: roster_ABC_def)
  show ?thesis
    using empty_text_counts_as_failure[OF blank i t, of hello net_a_b_down "[]" quiet]
    by (simp add: roster_ABC_def empty_response_def)
qed

section \<open>Roster construction\<close>

text \<open>
  C5. For every primary model identifier handed to the constructor and every list of fallback
  identifiers, the roster of the new instance is the primary followed by the fallbacks in
  their order, with exactly the falsy entries removed: nothing is de-duplicated, so an entry
  that is listed twice stays twice. Primary "m1" with fallbacks ["", "m2", null, "m3"] gives
  ["m1", "m2", "m3"].
\<close>

theorem roster_is_primary_then_fallbacks:
  "truthy key \<Longrightarrow> primary \<noteq> Undefined \<Longrightarrow>
     (\<exists>a. Ai_new \<lparr> opt_apiKey = key, opt_model = primary, opt_fallbackModels = Some fallbacks,
                     opt_requestTimeoutMs = t, opt_firstToFinish = f \<rparr> = Inr a
          \<and> models a = filter truthy (primary # fallbacks)
          \<and> (\<forall>m. truthy m \<longrightarrow> count_list (models a) m = count_list (primary # fallbacks) m))"
proof -
  have "count_list (filter truthy xs) m = count_list xs m" if "truthy m" for xs :: "jsval list" and m
    using that by (induction xs) auto
  then show "truthy key \<Longrightarrow> primary \<noteq> Undefined \<Longrightarrow> ?thesis"
    by (simp add: Ai_new_def construct_def build_models_def default_to_def)
qed

theorem roster_is_primary_then_fallbacks_witness:
  "(\<exists>a. Ai_new \<lparr> opt_apiKey = Str ''k'', opt_model = Str ''m1'',
                   opt_fallbackModels = Some [Str [], Str ''m2'', Null, Str ''m3''],
                   opt_requestTimeoutMs = None, opt_firstToFinish = Undefined \<rparr> = Inr a
         \<and> models a = [Str ''m1'', Str ''m2'', Str ''m3''])
   \<and> (\<exists>a. Ai_new \<lparr> opt_apiKey = Str ''k'', opt_model = Str ''m1'',
                   opt_fallbackModels = Some [Str ''m2'', Str ''m1'', Str ''m2''],
                   opt_requestTimeoutMs = None, opt_firstToFinish = Undefined \<rparr> = Inr a
         \<and> models a = [Str ''m1'', Str ''m2'', Str ''m1'', Str ''m2''])"
  using roster_is_primary_then_fallbacks
          [of "Str ''k''" "Str ''m1''" "[Str [], Str ''m2'', Null, Str ''m3'']" None Undefined]
        roster_is_primary_then_fallbacks
          [of "Str ''k''" "Str ''m1''" "[Str ''m2'', Str ''m1'', Str ''m2'']" None Undefined]
  by auto

section \<open>Retention\<close>

text \<open>
  C6. For every partition (scope, chatId): when \<^verbatim>\<open>appendMessages\<close> is called with at least one
  valid turn on a collection whose \<^verbatim>\<open>_id\<close>s are distinct, and the connection, the aggregation
  and the deletion succeed, then all valid turns are inserted (unless the insertion itself
  fails, which is logged), and once the trim it starts has run the partition holds at most 80
  documents: exactly the 80 most recent by \<^verbatim>\<open>createdAt\<close> when there were more, all of them
  otherwise. Every document that was deleted is at most as recent as every document that was
  kept, and the documents of other partitions are untouched.
\<close>

theorem append_trims_partition_to_newest_80:
  fixes d :: db and s :: store and msgs :: "jsval list" and chatId scope :: jsval
    and clock :: "nat \<Rightarrow> nat" and out :: console_lines
  defines "cid \<equiv> js_String chatId"
  defines "inserted \<equiv>
     (if insert_error d = None then docs s @ new_docs cid scope clock (next_id s) msgs else docs s)"
  defines "s' \<equiv> fst (snd (appendMessages_trimmed d clock chatId scope (Arr msgs) (s, out)))"
  assumes "wf_store s" and "truthy chatId" and "truthy scope"
    and "filter valid_message msgs \<noteq> []"
    and "connect_error d = None" and "aggregate_error d = None" and "delete_error d = None"
  shows "fst (appendMessages_trimmed d clock chatId scope (Arr msgs) (s, out)) = None
     \<and> docs (fst (fst (snd (appendMessages d clock chatId scope (Arr msgs) (s, out))))) = inserted
     \<and> length (filter (in_partition cid scope) (docs s'))
         = min 80 (length (filter (in_partition cid scope) inserted))
     \<and> set (filter (in_partition cid scope) (docs s'))
         \<subseteq> set (filter (in_partition cid scope) inserted)
     \<and> (\<forall>kept \<in> set (filter (in_partition cid scope) (docs s')).
         \<forall>gone \<in> set (filter (in_partition cid scope) inserted)
                    - set (filter (in_partition cid scope) (docs s')).
           doc_createdAt gone \<le> doc_createdAt kept)
     \<and> filter (\<lambda>x. \<not> in_partition cid scope x) (docs s')
         = filter (\<lambda>x. \<not> in_partition cid scope x) (docs s)"
proof -
  let ?P = "in_partition cid scope"
  let ?new = "new_docs cid scope clock (next_id s) msgs"
  let ?part = "filter ?P inserted"
  let ?srt = "sort_newest_first ?part"
  have new: "?new \<noteq> []" using assms(7) by (simp add: new_docs_empty)
  have guards: "\<not> (\<not> truthy chatId \<or> \<not> truthy scope \<or> \<not> is_array (Arr msgs) \<or> elems (Arr msgs) = [])"
    using assms(5,6,7) by auto
  obtain s1 out1 where ins: "insertMany d ?new (s, out) = (s1, out1)"
    by (cases "insertMany d ?new (s, out)")
  have s1: "docs s1 = inserted"
    using ins by (auto simp add: insertMany_def inserted_def split: option.splits)
  have app: "appendMessages d clock chatId scope (Arr msgs) (s, out)
      = (None, (s1, out1), Some (cid, scope))"
    using guards new assms(8) ins by (simp add: appendMessages_def cid_def Let_def)
  have trimmed: "appendMessages_trimmed d clock chatId scope (Arr msgs) (s, out)
      = (None, trim_history d cid scope (s1, out1))"
    by (simp add: appendMessages_trimmed_def app)
  have s': "docs s' = filter (\<lambda>x. doc_id x \<notin> set (map doc_id (drop 80 ?srt))) inserted"
    unfolding s'_def trimmed
    by (simp add: trim_history_healthy[OF assms(9,10)] s1 maxEntries_def)
  have ids: "distinct (map doc_id inserted)"
    using wf_store_insert(1)[OF assms(4), of cid scope clock msgs] assms(4)
    by (simp add: inserted_def wf_store_def)
  note tp = trim_partition[where P="?P" and n=80, OF ids, folded s']
  have sub: "set (filter ?P (docs s')) \<subseteq> set ?part"
    using tp(1) set_take_subset[of 80 ?srt] by (simp add: sort_newest_first_def)
  have newest: "doc_createdAt gone \<le> doc_createdAt kept"
    if "kept \<in> set (filter ?P (docs s'))" "gone \<in> set ?part - set (filter ?P (docs s'))"
    for kept gone
  proof -
    have k: "kept \<in> set (take 80 ?srt)" using that(1) unfolding tp(1) .
    have "set ?part = set (take 80 ?srt) \<union> set (drop 80 ?srt)"
      using set_append[of "take 80 ?srt" "drop 80 ?srt"] by (simp add: sort_newest_first_def)
    then have "gone \<in> set (drop 80 ?srt)" using that(2) unfolding tp(1) by blast
    with k show ?thesis by (rule newest_first_take_drop)
  qed
  have others: "filter (\<lambda>x. \<not> ?P x) (docs s') = filter (\<lambda>x. \<not> ?P x) (docs s)"
    using tp(3) new_docs_in_partition[of _ cid scope clock "next_id s" msgs]
    by (auto simp add: inserted_def)
  have c1: "fst (appendMessages_trimmed d clock chatId scope (Arr msgs) (s, out)) = None"
    by (simp add: trimmed)
  have c2: "docs (fst (fst (snd (appendMessages d clock chatId scope (Arr msgs) (s, out))))) = inserted"
    by (simp add: app s1)
  have c5: "\<forall>kept \<in> set (filter ?P (docs s')).
         \<forall>gone \<in> set ?part - set (filter ?P (docs s')).
           doc_createdAt gone \<le> doc_createdAt kept"
    using newest by blast
  show ?thesis
    by (rule conjI[OF c1 conjI[OF c2 conjI[OF tp(2) conjI[OF sub conjI[OF c5 others]]]]])
qed
lemma wf_store_appends: "wf_store (fst (appends n))"
  by (simp add: appends_docs wf_store_def comp_def turn_doc_def list_all_iff del: upt_Suc)

lemma history_after_appends:
  assumes "n \<le> 1000"
  shows "fst (getHistory healthy (Str ''chat'') (Str ''scope'') 1000 (fst (appends n)))
     = Inr (map turn [n - 80..<n])"
proof -
  let ?xs = "map turn_doc [n - 80..<n]"
  have "length ?xs \<le> 1000" using assms by simp
  then have lim: "mongo_limit 1000 (rev ?xs) = rev ?xs"
    by (simp add: mongo_limit_def del: upt_Suc)
  have ent: "map (\<lambda>x. entry (doc_role x) (doc_content x)) ?xs = map turn [n - 80..<n]"
    by (simp add: entry_def turn_def turn_doc_def)
  have ok: "filter (\<lambda>e. truthy (get_prop e ''role'') \<and> truthy (get_prop e ''content''))
              (map turn ks) = map turn ks" for ks
    by (induction ks) (simp_all add: turn_def nat_decimal_nonempty)
  show ?thesis
    by (simp only: appends_docs getHistory_def Let_def fst_conv store.simps truthy.simps
          js_String.simps turn_docs_in_partition turn_docs_newest_first lim rev_rev_ident ent ok)
       (simp add: healthy_def)
qed

theorem append_trims_partition_to_newest_80_witness:
  "length (filter (in_partition ''chat'' (Str ''scope'')) (docs (fst (appends 81)))) = 80
   \<and> set (docs (fst (appends 81))) \<subseteq> set (docs (fst (appends 80))) \<union> {turn_doc 80}
   \<and> turn_doc 0 \<in> set (docs (fst (appends 80)))
   \<and> turn_doc 0 \<notin> set (docs (fst (appends 81)))
   \<and> fst (getHistory healthy (Str ''chat'') (Str ''scope'') 1000 (fst (appends 81)))
       = Inr (map turn [1..<81])"
proof -
  have s80: "appends 80 = (fst (appends 80), [])"
    by (simp add: appends_docs)
  have valid: "filter valid_message [turn 80] \<noteq> []"
    by (simp add: valid_turn)
  have xs80: "docs (fst (appends 80)) = map turn_doc [0..<80]"
    by (simp add: appends_docs)
  have ins: "docs (fst (appends 80)) @ new_docs ''chat'' (Str ''scope'') (\<lambda>k. 80) 80 [turn 80]
      = map turn_doc [0..<Suc 80]"
    by (simp only: xs80 new_docs_turn upt_Suc_append[OF le0] map_append list.map)
  have next81: "fst (snd (appendMessages_trimmed healthy (\<lambda>k. 80) (Str ''chat'') (Str ''scope'')
                   (Arr [turn 80]) (fst (appends 80), []))) = fst (appends 81)"
    using appends.simps(2)[of 80] s80 by (simp add: eval_nat_numeral)
  have nid: "next_id (fst (appends 80)) = 80" by (simp add: appends_docs)
  note main = append_trims_partition_to_newest_80
      [where s = "fst (appends 80)" and chatId = "Str ''chat''" and scope = "Str ''scope''"
         and msgs = "[turn 80]" and d = healthy and clock = "\<lambda>k. 80" and out = "[]",
       OF wf_store_appends, unfolded next81]
  have len: "length (filter (in_partition ''chat'' (Str ''scope'')) (docs (fst (appends 81)))) = 80"
    using main valid by (simp add: healthy_def nid ins turn_docs_in_partition del: upt_Suc)
  have sub: "set (docs (fst (appends 81))) \<subseteq> set (docs (fst (appends 80))) \<union> {turn_doc 80}"
  proof
    fix x assume "x \<in> set (docs (fst (appends 81)))"
    then obtain k where k: "x = turn_doc k" "1 \<le> k" "k < 81"
      by (auto simp add: appends_docs)
    show "x \<in> set (docs (fst (appends 80))) \<union> {turn_doc 80}"
    proof (cases "k = 80")
      case True
      then show ?thesis using k by simp
    next
      case False
      then have "k < 80" using k by simp
      then show ?thesis using k by (simp add: appends_docs)
    qed
  qed
  have old: "turn_doc 0 \<in> set (docs (fst (appends 80)))"
    by (simp add: appends_docs del: upt_Suc)
  have gone: "turn_doc 0 \<notin> set (docs (fst (appends 81)))"
    by (auto simp add: appends_docs turn_doc_def simp del: upt_Suc)
  have hist: "fst (getHistory healthy (Str ''chat'') (Str ''scope'') 1000 (fst (appends 81)))
       = Inr (map turn [1..<81])"
    using history_after_appends[of 81] by simp
  show ?thesis
    by (rule conjI[OF len conjI[OF sub conjI[OF old conjI[OF gone hist]]]])
qed

section \<open>What reaches the store\<close>

text \<open>
  C7, as the code has it. For every call of \<^verbatim>\<open>appendMessages\<close> the collection only grows by
  documents appended at its end, and each of them carries the role and the content of one of
  the messages passed in, a message that is itself truthy and whose role and content are both
  truthy: a message whose role or content is missing, null or the empty string yields no
  document at all, and no document has one of the two without the other. When the guards
  pass and connection and insertion succeed, the new documents are exactly those messages, in
  order. The test on the content is truthiness, not emptiness: content that is an empty array
  (or an empty object) is truthy and is stored.
\<close>

theorem stored_turns_are_the_truthy_ones:
  fixes d :: db and s :: store and msgs chatId scope :: jsval
    and clock :: "nat \<Rightarrow> nat" and out :: console_lines
  defines "after \<equiv> docs (fst (fst (snd (appendMessages d clock chatId scope msgs (s, out)))))"
  shows "\<exists>new. after = docs s @ new
     \<and> (\<forall>x \<in> set new.
           truthy (doc_role x) \<and> truthy (doc_content x)
         \<and> doc_role x \<notin> {Undefined, Null, Str []} \<and> doc_content x \<notin> {Undefined, Null, Str []}
         \<and> (\<exists>m \<in> set (elems msgs). truthy m \<and> doc_role x = get_prop m ''role''
                                     \<and> doc_content x = get_prop m ''content''))
     \<and> (truthy chatId \<and> truthy scope \<and> connect_error d = None \<and> insert_error d = None
          \<longrightarrow> map (\<lambda>x. (doc_role x, doc_content x)) new
               = map (\<lambda>m. (get_prop m ''role'', get_prop m ''content''))
                   (filter (\<lambda>m. truthy m \<and> truthy (get_prop m ''role'')
                                     \<and> truthy (get_prop m ''content'')) (elems msgs)))"
proof -
  define cands where "cands = new_docs (js_String chatId) scope clock (next_id s) (elems msgs)"
  have vm: "valid_message
      = (\<lambda>m. truthy m \<and> truthy (get_prop m ''role'') \<and> truthy (get_prop m ''content''))"
    by (rule ext) (simp add: valid_message_def)
  have falsy: "\<not> truthy v" if "v \<in> {Undefined, Null, Str []}" for v
    using that by auto
  have each: "truthy (doc_role x) \<and> truthy (doc_content x)
         \<and> doc_role x \<notin> {Undefined, Null, Str []} \<and> doc_content x \<notin> {Undefined, Null, Str []}
         \<and> (\<exists>m \<in> set (elems msgs). truthy m \<and> doc_role x = get_prop m ''role''
                                     \<and> doc_content x = get_prop m ''content'')"
    if "x \<in> set cands" for x
  proof -
    from that obtain k m where m: "(k, m) \<in> set (enumerate 0 (filter valid_message (elems msgs)))"
      and x: "doc_role x = get_prop m ''role''" "doc_content x = get_prop m ''content''"
      by (auto simp add: cands_def new_docs_def)
    from m have "snd (k, m) \<in> snd ` set (enumerate 0 (filter valid_message (elems msgs)))"
      by (rule imageI)
    then have "m \<in> set (map snd (enumerate 0 (filter valid_message (elems msgs))))"
      by (simp only: set_map snd_conv)
    then have "m \<in> set (filter valid_message (elems msgs))"
      by (simp only: map_snd_enumerate)
    then have "m \<in> set (elems msgs)" "truthy m" "truthy (get_prop m ''role'')"
      "truthy (get_prop m ''content'')"
      by (simp_all add: valid_message_def)
    then show ?thesis using x falsy by metis
  qed
  have exact: "map (\<lambda>x. (doc_role x, doc_content x)) cands
      = map (\<lambda>m. (get_prop m ''role'', get_prop m ''content''))
          (filter (\<lambda>m. truthy m \<and> truthy (get_prop m ''role'') \<and> truthy (get_prop m ''content''))
             (elems msgs))"
  proof -
    let ?ys = "enumerate 0 (filter valid_message (elems msgs))"
    have "map (\<lambda>x. (doc_role x, doc_content x)) cands
        = map (\<lambda>x. (get_prop (snd x) ''role'', get_prop (snd x) ''content'')) ?ys"
      by (simp add: cands_def new_docs_def comp_def case_prod_unfold)
    also have "\<dots> = map (\<lambda>m. (get_prop m ''role'', get_prop m ''content'')) (map snd ?ys)"
      by (simp only: map_map comp_def)
    also have "map snd ?ys = filter valid_message (elems msgs)"
      by simp
    finally show ?thesis
      by (simp only: vm)
  qed
  have none: "filter (\<lambda>m. truthy m \<and> truthy (get_prop m ''role'') \<and> truthy (get_prop m ''content''))
             (elems msgs) = []" if "cands = []"
    using that by (simp add: cands_def new_docs_empty vm)
  have arr: "is_array msgs \<or> elems msgs = []"
    by (cases msgs) simp_all
  consider (grown) "after = docs s @ cands"
      "truthy chatId" "truthy scope" "connect_error d = None" "insert_error d = None"
    | (same) "after = docs s"
      "\<not> (truthy chatId \<and> truthy scope \<and> connect_error d = None \<and> insert_error d = None)
        \<or> cands = []"
    using arr
    unfolding after_def appendMessages_def insertMany_def Let_def cands_def[symmetric]
    by (cases "connect_error d"; cases "insert_error d"; cases "cands = []";
        cases "truthy chatId"; cases "truthy scope"; cases "is_array msgs"; cases "elems msgs = []")
       (auto simp add: cands_def new_docs_def)
  then show ?thesis
  proof cases
    case grown
    show ?thesis
      by (rule exI[of _ cands]) (use grown(1) each exact in blast)
  next
    case same
    show ?thesis
      by (rule exI[of _ "[]"]) (use same none in auto)
  qed
qed

theorem stored_turns_are_the_truthy_ones_witness:
  "\<exists>new. docs (fst (fst (snd (appendMessages healthy (\<lambda>k. 7) (Str ''c'') (Str ''s'')
              (Arr [Obj [(''role'', Str ''user''), (''content'', Str ''hi'')],
                    Null,
                    Obj [(''role'', Str ''user'')],
                    Obj [(''content'', Str ''lost'')],
                    Obj [(''role'', Str ''assistant''), (''content'', Str [])],
                    Obj [(''role'', Str ''assistant''), (''content'', Str ''yo'')]])
              (empty_store, []))))) = new
    \<and> map (\<lambda>x. (doc_role x, doc_content x)) new
        = [(Str ''user'', Str ''hi''), (Str ''assistant'', Str ''yo'')]"
  using stored_turns_are_the_truthy_ones[of healthy "\<lambda>k. 7" "Str ''c''" "Str ''s''"
      "Arr [Obj [(''role'', Str ''user''), (''content'', Str ''hi'')],
            Null,
            Obj [(''role'', Str ''user'')],
            Obj [(''content'', Str ''lost'')],
            Obj [(''role'', Str ''assistant''), (''content'', Str [])],
            Obj [(''role'', Str ''assistant''), (''content'', Str ''yo'')]]"
      empty_store "[]"]
  by (auto simp add: healthy_def empty_store_def)

text \<open>Read as "the content is not empty", the property fails on an empty array: the turn
  below has a role and an empty content, and it is stored.\<close>

theorem empty_array_content_is_stored:
  "docs (fst (fst (snd (appendMessages healthy (\<lambda>k. 7) (Str ''c'') (Str ''s'')
            (Arr [Obj [(''role'', Str ''user''), (''content'', Arr [])]])
            (empty_store, [])))))
     = [\<lparr> doc_id = 0, doc_chatId = ''c'', doc_scope = Str ''s'', doc_role = Str ''user'',
          doc_content = Arr [], doc_createdAt = 7 \<rparr>]"
  by (simp add: appendMessages_def healthy_def empty_store_def insertMany_def new_docs_def
        valid_message_def Let_def)

section \<open>A history-bound call needs a chat identifier\<close>

text \<open>
  C8. Every history-bound \<^verbatim>\<open>ask\<close> (of \<^verbatim>\<open>AiWithHistory\<close>, \<^verbatim>\<open>GroqAiWithHistory\<close>,
  \<^verbatim>\<open>MistralAiWithHistory\<close> and \<^verbatim>\<open>MultiProviderAiWithHistory\<close>) that is called with a falsy
  \<^verbatim>\<open>chatId\<close> throws "chatId is required for <class>" at once: the store is exactly as before
  (no history was read, nothing was written), the world is exactly as before (no call to any
  provider was made, nothing was logged) and the instance is unchanged, whatever the network,
  the database and the delegated \<^verbatim>\<open>ask\<close> would have done.
\<close>

theorem missing_chatId_fails_fast:
  assumes "\<not> truthy chatId"
  shows "AiWithHistory_ask a mem d clock net order chatId req (s, w)
           = (Throws (Error ''chatId is required for AiWithHistory''), a, s, w)
     \<and> GroqAiWithHistory_ask stringify groq_ask mem d clock chatId content g (s, w)
           = (Throws (Error ''chatId is required for GroqAiWithHistory''), g, s, w)
     \<and> MistralAiWithHistory_ask stringify mistral_ask mem d clock chatId content mi (s, w)
           = (Throws (Error ''chatId is required for MistralAiWithHistory''), mi, s, w)
     \<and> MultiProviderAiWithHistory_ask multi_ask mem d clock chatId content mp (s, w)
           = (Throws (Error ''chatId is required for MultiProviderAiWithHistory''), mp, s, w)"
  using assms
  by (simp add: AiWithHistory_ask_def GroqAiWithHistory_ask_def MistralAiWithHistory_ask_def
        MultiProviderAiWithHistory_ask_def WithHistory_ask_def)

theorem missing_chatId_fails_fast_witness:
  "AiWithHistory_ask (roster_ABC (Bool False)) \<lparr>memoryScope = Str ''default'', historyLimit = 10\<rparr>
      healthy (\<lambda>k. 0) net_a_b_down [] (Str []) hello (fst (appends 3), quiet)
     = (Throws (Error ''chatId is required for AiWithHistory''), roster_ABC (Bool False),
        fst (appends 3), quiet)
   \<and> GroqAiWithHistory_ask (\<lambda>v. ''{}'')
        (\<lambda>msgs inst w. (Returns ''pong'', inst, w\<lparr>invoked := invoked w @ [(Str ''mock'', [])]\<rparr>))
        \<lparr>memoryScope = Str ''default'', historyLimit = 10\<rparr>
        healthy (\<lambda>k. 0) Undefined (Str ''hello'') (roster_AB (Bool True)) (fst (appends 3), quiet)
     = (Throws (Error ''chatId is required for GroqAiWithHistory''), roster_AB (Bool True),
        fst (appends 3), quiet)
   \<and> finds (fst (snd (snd (AiWithHistory_ask (roster_ABC (Bool False))
        \<lparr>memoryScope = Str ''default'', historyLimit = 10\<rparr>
        healthy (\<lambda>k. 0) net_a_b_down [] (Num 0) hello (fst (appends 3), quiet))))) = 0"
proof -
  have e: "\<not> truthy (Str [])" and u: "\<not> truthy Undefined" and z: "\<not> truthy (Num 0)"
    by simp_all
  have f: "finds (fst (appends 3)) = 0" by (simp add: appends_docs)
  note ai_empty = missing_chatId_fails_fast[OF e,
            where a = "roster_ABC (Bool False)"
              and mem = "\<lparr>memoryScope = Str ''default'', historyLimit = 10\<rparr>"
              and d = healthy and clock = "\<lambda>k. 0" and net = net_a_b_down and order = "[]"
              and req = hello and s = "fst (appends 3)" and w = quiet, THEN conjunct1]
  note groq_undefined = missing_chatId_fails_fast[OF u,
            where stringify = "\<lambda>v. ''{}''"
              and groq_ask = "\<lambda>msgs inst w.
                    (Returns ''pong'', inst, w\<lparr>invoked := invoked w @ [(Str ''mock'', [])]\<rparr>)"
              and mem = "\<lparr>memoryScope = Str ''default'', historyLimit = 10\<rparr>"
              and d = healthy and clock = "\<lambda>k. 0" and content = "Str ''hello''"
              and g = "roster_AB (Bool True)" and s = "fst (appends 3)" and w = quiet,
            THEN conjunct2, THEN conjunct1]
  note ai_zero = missing_chatId_fails_fast[OF z,
            where a = "roster_ABC (Bool False)"
              and mem = "\<lparr>memoryScope = Str ''default'', historyLimit = 10\<rparr>"
              and d = healthy and clock = "\<lambda>k. 0" and net = net_a_b_down and order = "[]"
              and req = hello and s = "fst (appends 3)" and w = quiet, THEN conjunct1]
  show ?thesis
    using ai_empty groq_undefined ai_zero
    by (simp add: f)
qed

text \<open>With a chat identifier the same call does read the history and does call the provider:
  the guard is what keeps the world quiet.\<close>

lemma given_chatId_reads_and_asks:
  "(case AiWithHistory_ask (roster_ABC (Bool False)) \<lparr>memoryScope = Str ''scope'', historyLimit = 10\<rparr>
          healthy (\<lambda>k. 3) net_a_b_down [] (Str ''chat'') hello (fst (appends 3), quiet) of
      (res, a, s, w) \<Rightarrow>
        (res, lastUsedModel a, finds s, map (doc_content) (docs s), invoked w))
   = (Returns ''a'', Str ''A'', 1,
      [Str ''0'', Str ''1'', Str ''2'', Str ''hello'', Str ''a''],
      [(Str ''A'', [HumanMessage (Str ''0''), HumanMessage (Str ''1''), HumanMessage (Str ''2''),
                   HumanMessage (Str ''hello'')])])"
proof -
  have docs3: "appends 3 = (\<lparr>docs = [turn_doc 0, turn_doc 1, turn_doc 2], next_id = 3, finds = 0\<rparr>, [])"
    by (simp add: appends_docs eval_nat_numeral)
  have dec: "nat_decimal 0 = ''0''" "nat_decimal (Suc 0) = ''1''" "nat_decimal 2 = ''2''"
    by (simp_all add: nat_decimal.simps digit_char_def)
  show ?thesis
    by (simp add: docs3 AiWithHistory_ask_def WithHistory_ask_def getHistory_def healthy_def
          in_partition_def turn_doc_def dec sort_newest_first_def mongo_limit_def entry_def
          langchain_entry_def formatStoredContent_def hello_def quiet_def roster_ABC_def
          Ai_ask_def buildMessages_def net_a_b_down_def run_attempt_def await_response_def
          race_timeout_def extractText_def reply_def js_trim_def js_whitespace_def
          record_invoke_def toPersist_def appendMessages_trimmed_def appendMessages_def
          new_docs_def valid_message_def insertMany_def trim_history_def maxEntries_def Let_def)
qed

section \<open>Classification goes to one provider\<close>

lemma MistralAi_classify_moderations:
  "moderations (snd (MistralAi_classify a inputs options call w))
     = (if inputs_missing inputs then moderations w
        else moderations w @ [(default_to (Str ''mistral-moderation-latest'') (classify_model options),
                               if is_array inputs then elems inputs else [inputs])])"
  by (simp add: MistralAi_classify_def Let_def split: option.splits sum.splits)

lemma MistralAi_classify_flag:
  "MistralAi_classify (a\<lparr>firstToFinish := f\<rparr>) inputs options call w
     = MistralAi_classify a inputs options call w"
  by (simp add: MistralAi_classify_def Let_def cong: option.case_cong)

lemma getOrderedProviders_flag:
  "getOrderedProviders (m\<lparr>multi_firstToFinish := f\<rparr>) = getOrderedProviders m"
  by (simp add: getOrderedProviders_def Let_def cong: list.case_cong)

lemma can_classify_flag:
  "can_classify (m\<lparr>multi_firstToFinish := f\<rparr>) = can_classify m"
  by (rule ext) (simp add: can_classify_def)

text \<open>
  C9. \<^verbatim>\<open>MultiProviderAi.classify\<close> never races and never falls back. When inputs are given and
  \<open>p\<close> is the first provider in the order of \<^verbatim>\<open>getOrderedProviders\<close> whose client has a
  \<^verbatim>\<open>classify\<close> method, the call is exactly one \<^verbatim>\<open>classify\<close> of that client: its result, return
  or failure, is the result of the whole call, and exactly one moderation request is made. In
  every case at most one moderation request is made. Nothing depends on the \<^verbatim>\<open>firstToFinish\<close>
  flag, neither the instance's nor the client's.
\<close>

theorem classify_uses_first_capable_provider_once:
  assumes "\<not> inputs_missing inputs"
    and "getOrderedProviders m = before @ p # rest"
    and "\<forall>q \<in> set before. \<not> can_classify m q"
    and "map_of (clients m) p = Some (Mistral a)"
  shows "MultiProviderAi_classify m inputs options net w =
           (case MistralAi_classify a inputs options (net p) w of
              (Returns result, w1) \<Rightarrow>
                (Returns result, m\<lparr>multi_lastUsedModel := used_model p (Mistral a)\<rparr>, w1)
            | (Throws e, w1) \<Rightarrow> (Throws e, m, w1)
            | (Pending, w1) \<Rightarrow> (Pending, m, w1))
     \<and> moderations (snd (snd (MultiProviderAi_classify m inputs options net w)))
         = moderations w @ [(default_to (Str ''mistral-moderation-latest'') (classify_model options),
                             if is_array inputs then elems inputs else [inputs])]
     \<and> (\<forall>inputs'. length (moderations (snd (snd (MultiProviderAi_classify m inputs' options net w))))
                     \<le> Suc (length (moderations w)))
     \<and> MultiProviderAi_classify (m\<lparr>multi_firstToFinish := f\<rparr>) inputs options net w
         = (case MultiProviderAi_classify m inputs options net w of
              (res, m1, w1) \<Rightarrow> (res, m1\<lparr>multi_firstToFinish := f\<rparr>, w1))
     \<and> MistralAi_classify (a\<lparr>firstToFinish := f\<rparr>) inputs options (net p) w
         = MistralAi_classify a inputs options (net p) w"
proof -
  have capable: "can_classify m p"
    using assms(4) by (simp add: can_classify_def client_classify_def)
  have "filter (can_classify m) before = []"
    using assms(3) by (simp add: filter_empty_conv)
  then have first: "filter (can_classify m) (getOrderedProviders m)
      = p # filter (can_classify m) rest"
    using capable by (simp add: assms(2))
  obtain res w1 where run: "MistralAi_classify a inputs options (net p) w = (res, w1)"
    by (cases "MistralAi_classify a inputs options (net p) w")
  have main: "MultiProviderAi_classify m inputs options net w =
           (case MistralAi_classify a inputs options (net p) w of
              (Returns result, w1) \<Rightarrow>
                (Returns result, m\<lparr>multi_lastUsedModel := used_model p (Mistral a)\<rparr>, w1)
            | (Throws e, w1) \<Rightarrow> (Throws e, m, w1)
            | (Pending, w1) \<Rightarrow> (Pending, m, w1))"
    using assms(1,4) first by (simp add: MultiProviderAi_classify_def client_classify_def)
  have "snd (snd (MultiProviderAi_classify m inputs options net w)) = w1"
    unfolding main run by (cases res) simp_all
  moreover have "moderations w1
      = moderations w @ [(default_to (Str ''mistral-moderation-latest'') (classify_model options),
                          if is_array inputs then elems inputs else [inputs])]"
    using MistralAi_classify_moderations[of a inputs options "net p" w] assms(1) run by simp
  ultimately have once: "moderations (snd (snd (MultiProviderAi_classify m inputs options net w)))
      = moderations w @ [(default_to (Str ''mistral-moderation-latest'') (classify_model options),
                          if is_array inputs then elems inputs else [inputs])]"
    by simp
  have atmost: "length (moderations (snd (snd (MultiProviderAi_classify m inputs' options net w))))
      \<le> Suc (length (moderations w))" for inputs'
  proof -
    have one: "length (moderations w') \<le> Suc (length (moderations w))"
      if "MistralAi_classify b inputs' options c w = (r, w')" for b c r w'
      using MistralAi_classify_moderations[of b inputs' options c w] that by simp
    show ?thesis
      by (auto simp add: MultiProviderAi_classify_def client_classify_def
            split: list.splits option.splits client.splits prod.splits outcome.splits
            intro: one)
  qed
  have flag: "MultiProviderAi_classify (m\<lparr>multi_firstToFinish := f\<rparr>) inputs options net w
         = (case MultiProviderAi_classify m inputs options net w of
              (res, m1, w1) \<Rightarrow> (res, m1\<lparr>multi_firstToFinish := f\<rparr>, w1))"
    by (simp add: MultiProviderAi_classify_def getOrderedProviders_flag can_classify_flag
          split: list.splits option.splits prod.splits outcome.splits)
  show ?thesis
    using main once atmost flag
      MistralAi_classify_flag[where a = a and f = f and inputs = inputs and options = options
        and call = "net p" and w = w]
    by blast
qed
lemma three_keys_build: "MultiProviderAi_new (three_keys ftf) = Inr (three_providers (default_to (Bool False) ftf))"
  by (simp add: MultiProviderAi_new_def three_keys_def three_providers_def provider_ai_def
        default_to_def providerConfigs_def Ai_new_def MistralAi_new_def GroqAi_new_def
        construct_def build_models_def Let_def)

theorem classify_uses_first_capable_provider_once_witness:
  "MultiProviderAi_new (three_keys (Bool True)) = Inr (three_providers (Bool True))
   \<and> getOrderedProviders (three_providers (Bool True)) = [''groq'', ''openrouter'', ''mistral'']
   \<and> MultiProviderAi_classify (three_providers (Bool True)) (Str ''some text'')
        \<lparr>classify_model = Undefined, classify_timeout = None\<rparr>
        (\<lambda>p. Settles 10 (Rejects (Error ''503''))) quiet
      = (Throws (Error ''503''), three_providers (Bool True),
         quiet\<lparr>moderations := [(Str ''mistral-moderation-latest'', [Str ''some text''])]\<rparr>)
   \<and> MultiProviderAi_classify (three_providers (Bool False)) (Str ''some text'')
        \<lparr>classify_model = Undefined, classify_timeout = None\<rparr>
        (\<lambda>p. Settles 10 (Rejects (Error ''503''))) quiet
      = (Throws (Error ''503''), three_providers (Bool False),
         quiet\<lparr>moderations := [(Str ''mistral-moderation-latest'', [Str ''some text''])]\<rparr>)"
proof -
  have inputs: "\<not> inputs_missing (Str ''some text'')"
    by (simp add: inputs_missing_def)
  have order: "getOrderedProviders (three_providers f) = [''groq'', ''openrouter''] @ ''mistral'' # []" for f
    by (simp add: getOrderedProviders_def three_providers_def)
  have before: "\<forall>q \<in> set [''groq'', ''openrouter'']. \<not> can_classify (three_providers f) q" for f
    by (simp add: can_classify_def client_classify_def three_providers_def)
  have cl: "map_of (clients (three_providers f)) ''mistral''
      = Some (Mistral (provider_ai ''k2'' [Str ''mistral-small-latest'', Str ''m2''] f))" for f
    by (simp add: three_providers_def)
  have run: "MistralAi_classify (provider_ai ''k2'' [Str ''mistral-small-latest'', Str ''m2''] f)
        (Str ''some text'') \<lparr>classify_model = Undefined, classify_timeout = None\<rparr>
        (Settles 10 (Rejects (Error ''503''))) quiet
      = (Throws (Error ''503''),
         quiet\<lparr>moderations := [(Str ''mistral-moderation-latest'', [Str ''some text''])]\<rparr>)" for f
    by (simp add: MistralAi_classify_def inputs_missing_def default_to_def provider_ai_def
          race_timeout_def quiet_def Let_def)
  note main = classify_uses_first_capable_provider_once[OF inputs order before cl,
      where options = "\<lparr>classify_model = Undefined, classify_timeout = None\<rparr>"
        and net = "\<lambda>p. Settles 10 (Rejects (Error ''503''))" and w = quiet, THEN conjunct1]
  show ?thesis
    using main[of "Bool True"] main[of "Bool False"] three_keys_build[of "Bool True"] order[of "Bool True"]
    by (simp add: run default_to_def)
qed

section \<open>Transcription and the roster\<close>

lemma candidates_truthy:
  "truthy model_arg \<Longrightarrow> candidates default_model a model_arg = [model_arg]"
  by (auto simp add: candidates_def default_to_def Let_def)

lemma candidates_falsy:
  "model_arg \<noteq> Undefined \<Longrightarrow> \<not> truthy model_arg \<Longrightarrow>
   candidates default_model a model_arg =
     (if models a = [] then [Str default_model] else models a)"
  by (simp add: candidates_def default_to_def Let_def)

lemma transcribe_models_single:
  "transcribe_models name a [m] net order w =
     (case runOnce name a m (net 0) of
        None \<Rightarrow> (Pending, a, record_transcription name m w)
      | Some (Success text) \<Rightarrow> (Returns text, a\<lparr>lastUsedModel := m\<rparr>, record_transcription name m w)
      | Some (Failure e) \<Rightarrow>
          (Throws e, a, transcription_log name e (record_transcription name m w)))"
  by (simp add: transcribe_models_def split: option.splits attempt_outcome.splits)

lemma runOnce_roster:
  "runOnce name (a\<lparr>models := ms, firstToFinish := f\<rparr>) m call = runOnce name a m call"
  by (simp add: runOnce_def)

lemma transcribe_sequential_first_success:
  "k < length ms \<Longrightarrow>
   (\<And>j. j < k \<Longrightarrow> runOnce name a (ms ! j) (net (i + j)) = Some (Failure (errs (i + j)))) \<Longrightarrow>
   runOnce name a (ms ! k) (net (i + k)) = Some (Success text) \<Longrightarrow>
   fst (transcribe_sequential name a net i ms le w) = Returns text
   \<and> fst (snd (transcribe_sequential name a net i ms le w)) = a\<lparr>lastUsedModel := ms ! k\<rparr>
   \<and> transcriptions (snd (snd (transcribe_sequential name a net i ms le w)))
       = transcriptions w @ map (Pair name) (take (Suc k) ms)"
proof (induction ms arbitrary: i k le w)
  case Nil
  then show ?case by simp
next
  case (Cons m ms)
  show ?case
  proof (cases k)
    case 0
    with Cons.prems show ?thesis by (simp add: record_transcription_def)
  next
    case (Suc k')
    have h0: "runOnce name a m (net i) = Some (Failure (errs i))"
      using Cons.prems(2)[of 0] Suc by simp
    have h1: "\<And>j. j < k' \<Longrightarrow>
        runOnce name a (ms ! j) (net (Suc i + j)) = Some (Failure (errs (Suc i + j)))"
      using Cons.prems(2)[of "Suc _"] Suc by simp
    have h2: "runOnce name a (ms ! k') (net (Suc i + k')) = Some (Success text)"
      using Cons.prems(3) Suc by simp
    have h3: "k' < length ms" using Cons.prems(1) Suc by simp
    show ?thesis
      using Cons.IH[OF h3 h1 h2] h0 Suc
      by (simp add: record_transcription_def transcription_log_def)
  qed
qed

lemma transcribe_sequential_all_fail:
  "(\<And>j. j < length ms \<Longrightarrow> runOnce name a (ms ! j) (net (i + j)) = Some (Failure (errs (i + j)))) \<Longrightarrow>
   fst (transcribe_sequential name a net i ms le w)
       = Throws (if ms = [] then (case le of Some e \<Rightarrow> e | None \<Rightarrow> all_transcriptions_failed name)
                 else errs (i + (length ms - 1)))
   \<and> fst (snd (transcribe_sequential name a net i ms le w)) = a
   \<and> transcriptions (snd (snd (transcribe_sequential name a net i ms le w)))
       = transcriptions w @ map (Pair name) ms"
proof (induction ms arbitrary: i le w)
  case Nil
  then show ?case by simp
next
  case (Cons m ms)
  have h0: "runOnce name a m (net i) = Some (Failure (errs i))"
    using Cons.prems[of 0] by simp
  have h1: "\<And>j. j < length ms \<Longrightarrow>
      runOnce name a (ms ! j) (net (Suc i + j)) = Some (Failure (errs (Suc i + j)))"
    using Cons.prems[of "Suc _"] by simp
  show ?case
    using Cons.IH[OF h1] h0
    by (cases ms) (simp_all add: record_transcription_def transcription_log_def)
qed

lemma transcribe_sequential_prefix:
  "\<exists>n\<le>length ms. (ms \<noteq> [] \<longrightarrow> 0 < n)
     \<and> transcriptions (snd (snd (transcribe_sequential name a net i ms le w)))
         = transcriptions w @ map (Pair name) (take n ms)"
proof (induction ms arbitrary: i le w)
  case Nil
  then show ?case by simp
next
  case (Cons m ms)
  show ?case
  proof (cases "runOnce name a m (net i)")
    case None
    then show ?thesis
      by (intro exI[of _ 1]) (simp add: record_transcription_def)
  next
    case (Some result)
    show ?thesis
    proof (cases result)
      case (Success t)
      with Some show ?thesis
        by (intro exI[of _ 1]) (simp add: record_transcription_def)
    next
      case (Failure e)
      from Cons.IH[of "Suc i" "Some e" "transcription_log name e (record_transcription name m w)"]
      obtain n where n: "n \<le> length ms"
        "transcriptions (snd (snd (transcribe_sequential name a net (Suc i) ms (Some e)
            (transcription_log name e (record_transcription name m w)))))
          = transcriptions (transcription_log name e (record_transcription name m w))
            @ map (Pair name) (take n ms)"
        by blast
      show ?thesis
        using n Some Failure
        by (intro exI[of _ "Suc n"]) (simp add: record_transcription_def transcription_log_def)
    qed
  qed
qed

lemma transcribe_complete_transcriptions:
  "transcriptions (env (transcribe_complete name net ms r i)) = transcriptions (env r)"
  by (simp add: transcribe_complete_def transcribe_finally_def reject_def resolve_def
        transcription_log_def Let_def split: option.splits attempt_outcome.splits)

lemma foldl_transcribe_complete_transcriptions:
  "transcriptions (env (foldl (transcribe_complete name net ms) r order)) = transcriptions (env r)"
  by (induction order arbitrary: r) (simp_all add: transcribe_complete_transcriptions)

lemma foldl_record_transcription:
  "transcriptions (foldl (\<lambda>w m. record_transcription name m w) w ms)
     = transcriptions w @ map (Pair name) ms"
  by (induction ms arbitrary: w) (simp_all add: record_transcription_def)

lemma transcribe_models_raced:
  "truthy (firstToFinish a) \<Longrightarrow> length ms \<noteq> 1 \<Longrightarrow>
   transcriptions (snd (snd (transcribe_models name a ms net order w)))
     = transcriptions w @ map (Pair name) ms"
  by (simp add: transcribe_models_def Let_def foldl_transcribe_complete_transcriptions
        transcribe_launch_def foldl_record_transcription)

lemma MistralAi_transcribe_models:
  assumes "file_truthy (tr_file opts)" and "prepare_file readFileSync (tr_file opts) = Inr ()"
  shows "MistralAi_transcribe readFileSync a opts net order w =
           (case transcribe_models ''Mistral'' a
                   (candidates ''voxtral-mini-latest'' a (tr_model opts)) net order w of
              (Throws e, a1, w1) \<Rightarrow> (Throws e, a1, transcription_log ''Mistral'' e w1)
            | (Returns text, a1, w1) \<Rightarrow> (Returns text, a1, w1)
            | (Pending, a1, w1) \<Rightarrow> (Pending, a1, w1))"
  using assms by (simp add: MistralAi_transcribe_def)

lemma rethrow_projections:
  "fst (case r of
          (Throws e, a1, w1) \<Rightarrow> (Throws e, a1, transcription_log name e w1)
        | (Returns text, a1, w1) \<Rightarrow> (Returns text, a1, w1)
        | (Pending, a1, w1) \<Rightarrow> (Pending, a1, w1)) = fst r
   \<and> fst (snd (case r of
          (Throws e, a1, w1) \<Rightarrow> (Throws e, a1, transcription_log name e w1)
        | (Returns text, a1, w1) \<Rightarrow> (Returns text, a1, w1)
        | (Pending, a1, w1) \<Rightarrow> (Pending, a1, w1))) = fst (snd r)
   \<and> transcriptions (snd (snd (case r of
          (Throws e, a1, w1) \<Rightarrow> (Throws e, a1, transcription_log name e w1)
        | (Returns text, a1, w1) \<Rightarrow> (Returns text, a1, w1)
        | (Pending, a1, w1) \<Rightarrow> (Pending, a1, w1)))) = transcriptions (snd (snd r))"
  by (simp add: transcription_log_def split: prod.splits outcome.splits)
lemma transcribe_models_roster:
  assumes "ms \<noteq> []"
  shows "(\<not> truthy (firstToFinish a) \<or> length ms = 1 \<longrightarrow>
            (\<exists>n\<le>length ms. 0 < n
               \<and> transcriptions (snd (snd (transcribe_models name a ms net order w)))
                   = transcriptions w @ map (Pair name) (take n ms))
          \<and> (\<forall>k t. k < length ms
                 \<and> (\<forall>j<k. runOnce name a (ms ! j) (net j) = Some (Failure (errs j)))
                 \<and> runOnce name a (ms ! k) (net k) = Some (Success t) \<longrightarrow>
                 fst (transcribe_models name a ms net order w) = Returns t
               \<and> fst (snd (transcribe_models name a ms net order w)) = a\<lparr>lastUsedModel := ms ! k\<rparr>
               \<and> transcriptions (snd (snd (transcribe_models name a ms net order w)))
                   = transcriptions w @ map (Pair name) (take (Suc k) ms))
          \<and> ((\<forall>j<length ms. runOnce name a (ms ! j) (net j) = Some (Failure (errs j))) \<longrightarrow>
                 fst (transcribe_models name a ms net order w) = Throws (errs (length ms - 1))
               \<and> transcriptions (snd (snd (transcribe_models name a ms net order w)))
                   = transcriptions w @ map (Pair name) ms))
       \<and> (truthy (firstToFinish a) \<and> length ms \<noteq> 1 \<longrightarrow>
            transcriptions (snd (snd (transcribe_models name a ms net order w)))
              = transcriptions w @ map (Pair name) ms)"
proof (rule conjI; rule impI)
  assume mode: "\<not> truthy (firstToFinish a) \<or> length ms = 1"
  have seq: "transcribe_models name a ms net order w = transcribe_sequential name a net 0 ms None w"
    using mode by (simp add: transcribe_models_def)
  have p: "\<exists>n\<le>length ms. 0 < n
             \<and> transcriptions (snd (snd (transcribe_sequential name a net 0 ms None w)))
                 = transcriptions w @ map (Pair name) (take n ms)"
    using transcribe_sequential_prefix[of ms name a net 0 None w] assms by simp
  have s: "fst (transcribe_sequential name a net 0 ms None w) = Returns t
         \<and> fst (snd (transcribe_sequential name a net 0 ms None w)) = a\<lparr>lastUsedModel := ms ! k\<rparr>
         \<and> transcriptions (snd (snd (transcribe_sequential name a net 0 ms None w)))
             = transcriptions w @ map (Pair name) (take (Suc k) ms)"
    if "k < length ms \<and> (\<forall>j<k. runOnce name a (ms ! j) (net j) = Some (Failure (errs j)))
          \<and> runOnce name a (ms ! k) (net k) = Some (Success t)" for k t
    using transcribe_sequential_first_success[of k ms name a net 0 errs t None w] that by simp
  have f: "fst (transcribe_sequential name a net 0 ms None w) = Throws (errs (length ms - 1))
         \<and> transcriptions (snd (snd (transcribe_sequential name a net 0 ms None w)))
             = transcriptions w @ map (Pair name) ms"
    if "\<forall>j<length ms. runOnce name a (ms ! j) (net j) = Some (Failure (errs j))"
    using transcribe_sequential_all_fail[of ms name a net 0 errs None w] that assms by simp
  show "(\<exists>n\<le>length ms. 0 < n
               \<and> transcriptions (snd (snd (transcribe_models name a ms net order w)))
                   = transcriptions w @ map (Pair name) (take n ms))
          \<and> (\<forall>k t. k < length ms
                 \<and> (\<forall>j<k. runOnce name a (ms ! j) (net j) = Some (Failure (errs j)))
                 \<and> runOnce name a (ms ! k) (net k) = Some (Success t) \<longrightarrow>
                 fst (transcribe_models name a ms net order w) = Returns t
               \<and> fst (snd (transcribe_models name a ms net order w)) = a\<lparr>lastUsedModel := ms ! k\<rparr>
               \<and> transcriptions (snd (snd (transcribe_models name a ms net order w)))
                   = transcriptions w @ map (Pair name) (take (Suc k) ms))
          \<and> ((\<forall>j<length ms. runOnce name a (ms ! j) (net j) = Some (Failure (errs j))) \<longrightarrow>
                 fst (transcribe_models name a ms net order w) = Throws (errs (length ms - 1))
               \<and> transcriptions (snd (snd (transcribe_models name a ms net order w)))
                   = transcriptions w @ map (Pair name) ms)"
    unfolding seq using p s f by blast
next
  assume "truthy (firstToFinish a) \<and> length ms \<noteq> 1"
  then show "transcriptions (snd (snd (transcribe_models name a ms net order w)))
              = transcriptions w @ map (Pair name) ms"
    by (simp add: transcribe_models_raced)
qed

text \<open>
  C10, as the code has it. For a call of \<^verbatim>\<open>GroqAi.transcribe\<close> or \<^verbatim>\<open>MistralAi.transcribe\<close>
  whose file is accepted (for Mistral: and has been turned into a request field), the
  \<^verbatim>\<open>model\<close> argument decides the candidates.

  \<^item> A truthy \<^verbatim>\<open>model\<close>: exactly one model is attempted, the one passed. The outcome is the
    outcome of one \<^verbatim>\<open>runOnce\<close>, one call is made, and neither the configured roster nor
    \<^verbatim>\<open>firstToFinish\<close> has any influence on the result and on the calls made.

  \<^item> A \<^verbatim>\<open>model\<close> that is given and falsy (null, the empty string): the candidates are the
    configured roster, or the built-in default alone when the roster is empty, and the call is
    the shared loop or race over them. With \<^verbatim>\<open>firstToFinish\<close> falsy, or with a single
    candidate, the models attempted are a non-empty initial segment of the roster, in roster
    order: up to and including the first success when there is one, the whole roster when every
    attempt fails, and then the last candidate's error is thrown. Otherwise a call is started
    for every candidate, in roster order, whatever the order in which they finish.

  The statement is silent on a call that leaves \<^verbatim>\<open>model\<close> out: there the destructuring
  default makes the first branch of the ternary the only one taken, while the README announces
  that such a call races across the configured models.
\<close>

theorem transcribe_candidates_follow_the_model_argument:
  fixes opts :: transcribe_options and a :: ai and net :: "nat \<Rightarrow> invocation"
    and order :: "nat list" and w :: world and readFileSync :: "string \<Rightarrow> js_error + string"
  defines "m \<equiv> tr_model opts"
  defines "gr \<equiv> (if models a = [] then [Str ''whisper-large-v3-turbo''] else models a)"
  defines "mr \<equiv> (if models a = [] then [Str ''voxtral-mini-latest''] else models a)"
  defines "groq \<equiv> GroqAi_transcribe a opts net order w"
  defines "mistral \<equiv> MistralAi_transcribe readFileSync a opts net order w"
  assumes "file_truthy (tr_file opts)"
  shows "(truthy m \<longrightarrow>
           (groq =
              (case runOnce ''Groq'' a m (net 0) of
                 None \<Rightarrow> (Pending, a, record_transcription ''Groq'' m w)
               | Some (Success text) \<Rightarrow>
                   (Returns text, a\<lparr>lastUsedModel := m\<rparr>, record_transcription ''Groq'' m w)
               | Some (Failure e) \<Rightarrow>
                   (Throws e, a, transcription_log ''Groq'' e (record_transcription ''Groq'' m w)))
            \<and> transcriptions (snd (snd groq)) = transcriptions w @ [(''Groq'', m)]
            \<and> fst (GroqAi_transcribe (a\<lparr>models := ms, firstToFinish := f\<rparr>) opts net order w)
                = fst groq
            \<and> snd (snd (GroqAi_transcribe (a\<lparr>models := ms, firstToFinish := f\<rparr>) opts net order w))
                = snd (snd groq))
         \<and> (prepare_file readFileSync (tr_file opts) = Inr () \<longrightarrow>
              mistral =
                (case runOnce ''Mistral'' a m (net 0) of
                   None \<Rightarrow> (Pending, a, record_transcription ''Mistral'' m w)
                 | Some (Success text) \<Rightarrow>
                     (Returns text, a\<lparr>lastUsedModel := m\<rparr>, record_transcription ''Mistral'' m w)
                 | Some (Failure e) \<Rightarrow>
                     (Throws e, a,
                      transcription_log ''Mistral'' e
                        (transcription_log ''Mistral'' e (record_transcription ''Mistral'' m w))))
            \<and> transcriptions (snd (snd mistral)) = transcriptions w @ [(''Mistral'', m)]
            \<and> fst (MistralAi_transcribe readFileSync (a\<lparr>models := ms, firstToFinish := f\<rparr>) opts
                      net order w)
                = fst mistral
            \<and> snd (snd (MistralAi_transcribe readFileSync (a\<lparr>models := ms, firstToFinish := f\<rparr>) opts
                           net order w))
                = snd (snd mistral)))
       \<and> (m \<noteq> Undefined \<and> \<not> truthy m \<longrightarrow>
           (groq = transcribe_models ''Groq'' a gr net order w
            \<and> (\<not> truthy (firstToFinish a) \<or> length gr = 1 \<longrightarrow>
                 (\<exists>n\<le>length gr. 0 < n
                    \<and> transcriptions (snd (snd groq))
                        = transcriptions w @ map (Pair ''Groq'') (take n gr))
               \<and> (\<forall>k t. k < length gr
                      \<and> (\<forall>j<k. runOnce ''Groq'' a (gr ! j) (net j) = Some (Failure (errs j)))
                      \<and> runOnce ''Groq'' a (gr ! k) (net k) = Some (Success t) \<longrightarrow>
                      fst groq = Returns t
                    \<and> fst (snd groq) = a\<lparr>lastUsedModel := gr ! k\<rparr>
                    \<and> transcriptions (snd (snd groq))
                        = transcriptions w @ map (Pair ''Groq'') (take (Suc k) gr))
               \<and> ((\<forall>j<length gr. runOnce ''Groq'' a (gr ! j) (net j) = Some (Failure (errs j))) \<longrightarrow>
                      fst groq = Throws (errs (length gr - 1))
                    \<and> transcriptions (snd (snd groq))
                        = transcriptions w @ map (Pair ''Groq'') gr))
            \<and> (truthy (firstToFinish a) \<and> length gr \<noteq> 1 \<longrightarrow>
                 transcriptions (snd (snd groq)) = transcriptions w @ map (Pair ''Groq'') gr))
         \<and> (prepare_file readFileSync (tr_file opts) = Inr () \<longrightarrow>
              mistral =
                (case transcribe_models ''Mistral'' a mr net order w of
                   (Throws e, a1, w1) \<Rightarrow> (Throws e, a1, transcription_log ''Mistral'' e w1)
                 | (Returns text, a1, w1) \<Rightarrow> (Returns text, a1, w1)
                 | (Pending, a1, w1) \<Rightarrow> (Pending, a1, w1))
            \<and> (\<not> truthy (firstToFinish a) \<or> length mr = 1 \<longrightarrow>
                 (\<exists>n\<le>length mr. 0 < n
                    \<and> transcriptions (snd (snd mistral))
                        = transcriptions w @ map (Pair ''Mistral'') (take n mr))
               \<and> (\<forall>k t. k < length mr
                      \<and> (\<forall>j<k. runOnce ''Mistral'' a (mr ! j) (net j) = Some (Failure (errs j)))
                      \<and> runOnce ''Mistral'' a (mr ! k) (net k) = Some (Success t) \<longrightarrow>
                      fst mistral = Returns t
                    \<and> fst (snd mistral) = a\<lparr>lastUsedModel := mr ! k\<rparr>
                    \<and> transcriptions (snd (snd mistral))
                        = transcriptions w @ map (Pair ''Mistral'') (take (Suc k) mr))
               \<and> ((\<forall>j<length mr. runOnce ''Mistral'' a (mr ! j) (net j) = Some (Failure (errs j))) \<longrightarrow>
                      fst mistral = Throws (errs (length mr - 1))
                    \<and> transcriptions (snd (snd mistral))
                        = transcriptions w @ map (Pair ''Mistral'') mr))
            \<and> (truthy (firstToFinish a) \<and> length mr \<noteq> 1 \<longrightarrow>
                 transcriptions (snd (snd mistral)) = transcriptions w @ map (Pair ''Mistral'') mr)))"
    (is "(_ \<longrightarrow> ?AG \<and> (?ready \<longrightarrow> ?AM)) \<and> (_ \<longrightarrow> (?BG1 \<and> ?BG2) \<and> (_ \<longrightarrow> ?BM1 \<and> ?BM2))")
proof -
  note given = assms(6)
  have ag: ?AG if t: "truthy m"
  proof -
    have c: "candidates ''whisper-large-v3-turbo'' b (tr_model opts) = [m]" for b
      using t unfolding m_def by (rule candidates_truthy)
    have g: "GroqAi_transcribe b opts net order w =
           (case runOnce ''Groq'' b m (net 0) of
              None \<Rightarrow> (Pending, b, record_transcription ''Groq'' m w)
            | Some (Success text) \<Rightarrow>
                (Returns text, b\<lparr>lastUsedModel := m\<rparr>, record_transcription ''Groq'' m w)
            | Some (Failure e) \<Rightarrow>
                (Throws e, b, transcription_log ''Groq'' e (record_transcription ''Groq'' m w)))" for b
      using given by (simp add: GroqAi_transcribe_def c transcribe_models_single)
    have g0: "groq =
           (case runOnce ''Groq'' a m (net 0) of
              None \<Rightarrow> (Pending, a, record_transcription ''Groq'' m w)
            | Some (Success text) \<Rightarrow>
                (Returns text, a\<lparr>lastUsedModel := m\<rparr>, record_transcription ''Groq'' m w)
            | Some (Failure e) \<Rightarrow>
                (Throws e, a, transcription_log ''Groq'' e (record_transcription ''Groq'' m w)))"
      unfolding groq_def by (rule g)
    have gt: "transcriptions (snd (snd groq)) = transcriptions w @ [(''Groq'', m)]"
      unfolding groq_def
      by (simp add: g record_transcription_def transcription_log_def
            split: option.splits attempt_outcome.splits)
    have g1: "fst (GroqAi_transcribe (a\<lparr>models := ms, firstToFinish := f\<rparr>) opts net order w)
           = fst groq"
      unfolding groq_def
      by (simp add: g runOnce_roster split: option.splits attempt_outcome.splits)
    have g2: "snd (snd (GroqAi_transcribe (a\<lparr>models := ms, firstToFinish := f\<rparr>) opts net order w))
           = snd (snd groq)"
      unfolding groq_def
      by (simp add: g runOnce_roster split: option.splits attempt_outcome.splits)
    show ?thesis by (rule conjI[OF g0 conjI[OF gt conjI[OF g1 g2]]])
  qed
  have am: ?AM if t: "truthy m" and ready: ?ready
  proof -
    have c: "candidates ''voxtral-mini-latest'' b (tr_model opts) = [m]" for b
      using t unfolding m_def by (rule candidates_truthy)
    have g: "MistralAi_transcribe readFileSync b opts net order w =
           (case runOnce ''Mistral'' b m (net 0) of
              None \<Rightarrow> (Pending, b, record_transcription ''Mistral'' m w)
            | Some (Success text) \<Rightarrow>
                (Returns text, b\<lparr>lastUsedModel := m\<rparr>, record_transcription ''Mistral'' m w)
            | Some (Failure e) \<Rightarrow>
                (Throws e, b,
                 transcription_log ''Mistral'' e
                   (transcription_log ''Mistral'' e (record_transcription ''Mistral'' m w))))" for b
      using given ready
      by (simp add: MistralAi_transcribe_def c transcribe_models_single
            split: option.splits attempt_outcome.splits)
    have g0: "mistral =
           (case runOnce ''Mistral'' a m (net 0) of
              None \<Rightarrow> (Pending, a, record_transcription ''Mistral'' m w)
            | Some (Success text) \<Rightarrow>
                (Returns text, a\<lparr>lastUsedModel := m\<rparr>, record_transcription ''Mistral'' m w)
            | Some (Failure e) \<Rightarrow>
                (Throws e, a,
                 transcription_log ''Mistral'' e
                   (transcription_log ''Mistral'' e (record_transcription ''Mistral'' m w))))"
      unfolding mistral_def by (rule g)
    have gt: "transcriptions (snd (snd mistral)) = transcriptions w @ [(''Mistral'', m)]"
      unfolding mistral_def
      by (simp add: g record_transcription_def transcription_log_def
            split: option.splits attempt_outcome.splits)
    have g1: "fst (MistralAi_transcribe readFileSync (a\<lparr>models := ms, firstToFinish := f\<rparr>) opts
                      net order w)
           = fst mistral"
      unfolding mistral_def
      by (simp add: g runOnce_roster split: option.splits attempt_outcome.splits)
    have g2: "snd (snd (MistralAi_transcribe readFileSync (a\<lparr>models := ms, firstToFinish := f\<rparr>) opts
                           net order w))
           = snd (snd mistral)"
      unfolding mistral_def
      by (simp add: g runOnce_roster split: option.splits attempt_outcome.splits)
    show ?thesis by (rule conjI[OF g0 conjI[OF gt conjI[OF g1 g2]]])
  qed
  have gr_nonempty: "gr \<noteq> []" and mr_nonempty: "mr \<noteq> []"
    by (simp_all add: gr_def mr_def)
  have bg1: ?BG1 if "m \<noteq> Undefined \<and> \<not> truthy m"
    using given that unfolding groq_def gr_def m_def
    by (simp add: GroqAi_transcribe_def candidates_falsy)
  have bg2: ?BG2 if falsy: "m \<noteq> Undefined \<and> \<not> truthy m"
    unfolding bg1[OF falsy] by (rule transcribe_models_roster[OF gr_nonempty])
  have bm1: ?BM1 if "m \<noteq> Undefined \<and> \<not> truthy m" and ready: ?ready
    using that unfolding mistral_def mr_def m_def
    by (simp add: MistralAi_transcribe_models[OF given ready] candidates_falsy)
  have bm2: ?BM2 if falsy: "m \<noteq> Undefined \<and> \<not> truthy m" and ready: ?ready
  proof -
    let ?tm = "transcribe_models ''Mistral'' a mr net order w"
    note eqs = rethrow_projections[where r = ?tm and name = "''Mistral''", folded bm1[OF falsy ready]]
    have e1: "fst mistral = fst ?tm" by (rule eqs[THEN conjunct1])
    have e2: "fst (snd mistral) = fst (snd ?tm)" by (rule eqs[THEN conjunct2, THEN conjunct1])
    have e3: "transcriptions (snd (snd mistral)) = transcriptions (snd (snd ?tm))"
      by (rule eqs[THEN conjunct2, THEN conjunct2])
    show ?thesis
      unfolding e1 e2 e3 by (rule transcribe_models_roster[OF mr_nonempty])
  qed
  show ?thesis
  proof (rule conjI)
    show "truthy m \<longrightarrow> ?AG \<and> (?ready \<longrightarrow> ?AM)"
    proof (rule impI)
      assume t: "truthy m"
      show "?AG \<and> (?ready \<longrightarrow> ?AM)"
      proof (rule conjI)
        show ?AG by (rule ag[OF t])
        show "?ready \<longrightarrow> ?AM"
        proof (rule impI)
          assume ?ready
          then show ?AM by (rule am[OF t])
        qed
      qed
    qed
    show "m \<noteq> Undefined \<and> \<not> truthy m \<longrightarrow> (?BG1 \<and> ?BG2) \<and> (?ready \<longrightarrow> ?BM1 \<and> ?BM2)"
    proof (rule impI)
      assume falsy: "m \<noteq> Undefined \<and> \<not> truthy m"
      show "(?BG1 \<and> ?BG2) \<and> (?ready \<longrightarrow> ?BM1 \<and> ?BM2)"
      proof (rule conjI)
        show "?BG1 \<and> ?BG2" by (rule conjI[OF bg1[OF falsy] bg2[OF falsy]])
        show "?ready \<longrightarrow> ?BM1 \<and> ?BM2"
        proof (rule impI)
          assume ready: ?ready
          show "?BM1 \<and> ?BM2" by (rule conjI[OF bm1[OF falsy ready] bm2[OF falsy ready]])
        qed
      qed
    qed
  qed
qed
theorem transcribe_candidates_follow_the_model_argument_witness:
  "transcriptions (snd (snd (GroqAi_transcribe (roster_AB (Bool True))
        \<lparr>tr_file = FileBuffer ''RIFF'', tr_model = Str ''M''\<rparr> net_fail_fail_hi [1, 0] quiet)))
     = [(''Groq'', Str ''M'')]
   \<and> transcriptions (snd (snd (MistralAi_transcribe (\<lambda>path. Inl (Error ''ENOENT''))
        (roster_AB (Bool True))
        \<lparr>tr_file = FileBuffer ''RIFF'', tr_model = Str ''M''\<rparr> net_fail_fail_hi [1, 0] quiet)))
     = [(''Mistral'', Str ''M'')]
   \<and> fst (GroqAi_transcribe (roster_AB (Bool False))
        \<lparr>tr_file = FileBuffer ''RIFF'', tr_model = Str []\<rparr> net_fail_fail_hi [] quiet)
     = Throws (Error ''Groq transcription model B timed out after 20000ms'')
   \<and> transcriptions (snd (snd (GroqAi_transcribe (roster_AB (Bool False))
        \<lparr>tr_file = FileBuffer ''RIFF'', tr_model = Str []\<rparr> net_fail_fail_hi [] quiet)))
     = [(''Groq'', Str ''A''), (''Groq'', Str ''B'')]
   \<and> fst (GroqAi_transcribe (roster_ABC (Bool False))
        \<lparr>tr_file = FileBuffer ''RIFF'', tr_model = Null\<rparr> net_x_heard [] quiet)
     = Returns ''hi''
   \<and> transcriptions (snd (snd (GroqAi_transcribe (roster_ABC (Bool False))
        \<lparr>tr_file = FileBuffer ''RIFF'', tr_model = Null\<rparr> net_x_heard [] quiet)))
     = [(''Groq'', Str ''A''), (''Groq'', Str ''B'')]
   \<and> transcriptions (snd (snd (MistralAi_transcribe (\<lambda>path. Inl (Error ''ENOENT''))
        (roster_ABC (Bool True))
        \<lparr>tr_file = FileBuffer ''RIFF'', tr_model = Null\<rparr> net_x_heard [2, 0, 1] quiet)))
     = [(''Mistral'', Str ''A''), (''Mistral'', Str ''B''), (''Mistral'', Str ''C'')]
   \<and> transcriptions (snd (snd (GroqAi_transcribe (roster_AB (Bool True)\<lparr>models := []\<rparr>)
        \<lparr>tr_file = FileBuffer ''RIFF'', tr_model = Null\<rparr> net_fail_fail_hi [] quiet)))
     = [(''Groq'', Str ''whisper-large-v3-turbo'')]"
proof -
  let ?named = "\<lparr>tr_file = FileBuffer ''RIFF'', tr_model = Str ''M''\<rparr>"
  let ?blank = "\<lparr>tr_file = FileBuffer ''RIFF'', tr_model = Str []\<rparr>"
  let ?null = "\<lparr>tr_file = FileBuffer ''RIFF'', tr_model = Null\<rparr>"
  let ?disk = "\<lambda>path :: string. (Inl (Error ''ENOENT'') :: js_error + string)"
  have dec: "int_decimal 20000 = ''20000''"
    by (simp add: int_decimal_def nat_decimal.simps digit_char_def)
  have given: "file_truthy (tr_file ?named)" "file_truthy (tr_file ?blank)"
    "file_truthy (tr_file ?null)"
    by simp_all
  have ready: "prepare_file ?disk (tr_file ?named) = Inr ()"
    "prepare_file ?disk (tr_file ?null) = Inr ()"
    by (simp_all add: prepare_file_def)
  have named: "truthy (tr_model ?named)" by simp
  have blank: "tr_model ?blank \<noteq> Undefined \<and> \<not> truthy (tr_model ?blank)" by simp
  have null: "tr_model ?null \<noteq> Undefined \<and> \<not> truthy (tr_model ?null)" by simp

  note one = transcribe_candidates_follow_the_model_argument[OF given(1),
      where a = "roster_AB (Bool True)" and net = net_fail_fail_hi and order = "[1, 0]"
        and w = quiet and readFileSync = ?disk,
      THEN conjunct1, THEN mp, OF named]
  have c1: "transcriptions (snd (snd (GroqAi_transcribe (roster_AB (Bool True)) ?named
        net_fail_fail_hi [1, 0] quiet))) = [(''Groq'', Str ''M'')]"
    using one[THEN conjunct1, THEN conjunct2, THEN conjunct1] by (simp add: quiet_def)
  have c2: "transcriptions (snd (snd (MistralAi_transcribe ?disk (roster_AB (Bool True)) ?named
        net_fail_fail_hi [1, 0] quiet))) = [(''Mistral'', Str ''M'')]"
    using one[THEN conjunct2, THEN mp, OF ready(1), THEN conjunct2, THEN conjunct1]
    by (simp add: quiet_def)

  note loop = transcribe_candidates_follow_the_model_argument[OF given(2),
      where a = "roster_AB (Bool False)" and net = net_fail_fail_hi and order = "[]"
        and w = quiet
        and errs = "\<lambda>j. if j = 0 then Error ''x''
                        else Error ''Groq transcription model B timed out after 20000ms''",
      THEN conjunct2, THEN mp, OF blank, THEN conjunct1, THEN conjunct2, THEN conjunct1]
  have c34: "fst (GroqAi_transcribe (roster_AB (Bool False)) ?blank net_fail_fail_hi [] quiet)
       = Throws (Error ''Groq transcription model B timed out after 20000ms'')
     \<and> transcriptions (snd (snd (GroqAi_transcribe (roster_AB (Bool False)) ?blank
          net_fail_fail_hi [] quiet))) = [(''Groq'', Str ''A''), (''Groq'', Str ''B'')]"
    using loop[THEN mp, THEN conjunct2, THEN conjunct2, THEN mp]
    by (simp add: roster_AB_def quiet_def less_Suc_eq numeral_2_eq_2 runOnce_def
          net_fail_fail_hi_def race_timeout_def transcription_timeout_def dec)

  note stop = transcribe_candidates_follow_the_model_argument[OF given(3),
      where a = "roster_ABC (Bool False)" and net = net_x_heard and order = "[]"
        and w = quiet and errs = "\<lambda>j. Error ''x''",
      THEN conjunct2, THEN mp, OF null, THEN conjunct1, THEN conjunct2, THEN conjunct1]
  have c56: "fst (GroqAi_transcribe (roster_ABC (Bool False)) ?null net_x_heard [] quiet)
       = Returns ''hi''
     \<and> transcriptions (snd (snd (GroqAi_transcribe (roster_ABC (Bool False)) ?null
          net_x_heard [] quiet))) = [(''Groq'', Str ''A''), (''Groq'', Str ''B'')]"
    using stop[THEN mp, THEN conjunct2, THEN conjunct1, THEN spec[where x = "Suc 0"],
        THEN spec[where x = "''hi''"]]
    by (simp add: roster_ABC_def quiet_def runOnce_def net_x_heard_def race_timeout_def
          js_trim_def js_whitespace_def)

  note raced = transcribe_candidates_follow_the_model_argument[OF given(3),
      where a = "roster_ABC (Bool True)" and net = net_x_heard and order = "[2, 0, 1]"
        and w = quiet and readFileSync = ?disk,
      THEN conjunct2, THEN mp, OF null, THEN conjunct2, THEN mp, OF ready(2),
      THEN conjunct2, THEN conjunct2]
  have c7: "transcriptions (snd (snd (MistralAi_transcribe ?disk (roster_ABC (Bool True)) ?null
        net_x_heard [2, 0, 1] quiet)))
      = [(''Mistral'', Str ''A''), (''Mistral'', Str ''B''), (''Mistral'', Str ''C'')]"
    using raced by (simp add: roster_ABC_def quiet_def)

  note bare = transcribe_candidates_follow_the_model_argument[OF given(3),
      where a = "roster_AB (Bool True)\<lparr>models := []\<rparr>" and net = net_fail_fail_hi
        and order = "[]" and w = quiet and errs = "\<lambda>j. Error ''x''",
      THEN conjunct2, THEN mp, OF null, THEN conjunct1, THEN conjunct2, THEN conjunct1]
  have c8: "transcriptions (snd (snd (GroqAi_transcribe (roster_AB (Bool True)\<lparr>models := []\<rparr>)
        ?null net_fail_fail_hi [] quiet))) = [(''Groq'', Str ''whisper-large-v3-turbo'')]"
    using bare[THEN mp, THEN conjunct2, THEN conjunct2, THEN mp]
    by (simp add: roster_AB_def quiet_def runOnce_def net_fail_fail_hi_def race_timeout_def)

  show ?thesis
    by (rule conjI[OF c1 conjI[OF c2 conjI[OF c34[THEN conjunct1] conjI[OF c34[THEN conjunct2]
          conjI[OF c56[THEN conjunct1] conjI[OF c56[THEN conjunct2] conjI[OF c7 c8]]]]]]])
qed

text \<open>Read for every \<^verbatim>\<open>model\<close> argument, the property fails: with the roster A, B and the
  empty string (or null) as model, the sequential call tries A and then B, and the racing
  call starts both.\<close>

theorem falsy_model_selects_the_roster:
  "transcriptions (snd (snd (GroqAi_transcribe (roster_AB (Bool False))
        \<lparr>tr_file = FileBuffer ''RIFF'', tr_model = Str []\<rparr> net_fail_fail_hi [] quiet)))
     = [(''Groq'', Str ''A''), (''Groq'', Str ''B'')]
   \<and> transcriptions (snd (snd (MistralAi_transcribe (\<lambda>path. Inl (Error ''ENOENT''))
        (roster_AB (Bool True))
        \<lparr>tr_file = FileBuffer ''RIFF'', tr_model = Null\<rparr> net_fail_fail_hi [0, 1] quiet)))
     = [(''Mistral'', Str ''A''), (''Mistral'', Str ''B'')]"
  by (simp add: GroqAi_transcribe_def MistralAi_transcribe_def prepare_file_def candidates_def
        default_to_def roster_AB_def transcribe_models_def runOnce_def net_fail_fail_hi_def
        race_timeout_def record_transcription_def transcription_log_def quiet_def
        transcribe_launch_def transcribe_complete_def transcribe_finally_def reject_def
        transcription_timeout_def Let_def)

end
